theory Spec2Isabelle
  imports Complex_Main "HOL-Library.Char_ord" "HOL-Library.List_Lexorder" "HOL-Library.Sublist"
    "HOL-Library.AList" "HOL-Library.Multiset"
begin

section \<open>JavaScript values\<close>

text \<open>
  The engine of the book CSV editor lives in \<^verbatim>\<open>src/App.js\<close>: one React component whose
  state cells (\<^verbatim>\<open>originalData\<close>, \<^verbatim>\<open>currentData\<close>, \<^verbatim>\<open>edits\<close>, the filter, sort and page
  settings) are replaced, never mutated in place, by its handlers. The model is therefore
  plain state passing over an explicit record of these cells.

  A field of a book holds a number (\<^verbatim>\<open>id\<close>, and \<^verbatim>\<open>PublishedYear\<close> as loaded or generated),
  a string (the text columns, and every value typed into a cell), or is absent, which
  reads as \<^verbatim>\<open>undefined\<close>. Numbers stored in books are integers; they are modelled by \<open>int\<close>,
  exact wherever the double is (magnitude below \<open>2^53\<close>). A string is a list of code units;
  \<open>char\<close> covers the code units below 256.
\<close>

datatype jsval = JUndef | JNum int | JStr string

definition digit_char :: "nat \<Rightarrow> char" where
  "digit_char n = ''0123456789'' ! n"

fun nat_digits :: "nat \<Rightarrow> string" where
  "nat_digits n =
     (if n < 10 then [digit_char n] else nat_digits (n div 10) @ [digit_char (n mod 10)])"

declare nat_digits.simps [simp del]

definition Number_toString :: "int \<Rightarrow> string" where
  "Number_toString i = (if i < 0 then CHR ''-'' # nat_digits (nat (- i)) else nat_digits (nat i))"

text \<open>\<^verbatim>\<open>String(value)\<close>.\<close>

fun ToString :: "jsval \<Rightarrow> string" where
  "ToString JUndef = ''undefined''"
| "ToString (JNum n) = Number_toString n"
| "ToString (JStr s) = s"

text \<open>Truthiness, as \<^verbatim>\<open>||\<close> and \<^verbatim>\<open>if\<close> test it.\<close>

fun ToBoolean :: "jsval \<Rightarrow> bool" where
  "ToBoolean JUndef = False"
| "ToBoolean (JNum n) = (n \<noteq> 0)"
| "ToBoolean (JStr s) = (s \<noteq> [])"

text \<open>\<^verbatim>\<open>a || b\<close> on values.\<close>

definition js_or :: "jsval \<Rightarrow> jsval \<Rightarrow> jsval" where
  "js_or a b = (if ToBoolean a then a else b)"

section \<open>Books\<close>

text \<open>
  A book is an object literal: its own properties in insertion order. \<^verbatim>\<open>{...row, [k]: v}\<close>
  keeps the position of an existing key and appends a new one, which is \<open>AList.update\<close>;
  \<^verbatim>\<open>{...undefined, [k]: v}\<close> is the one-property object. The keys and values of a book are
  only ever searched with \<^verbatim>\<open>some\<close>, so their order decides nothing.
\<close>

type_synonym book = "(string \<times> jsval) list"

definition get_field :: "book \<Rightarrow> string \<Rightarrow> jsval" where
  "get_field b k = (case map_of b k of None \<Rightarrow> JUndef | Some v \<Rightarrow> v)"

definition Object_keys :: "book \<Rightarrow> string list" where
  "Object_keys b = map fst b"

definition Object_values :: "book \<Rightarrow> jsval list" where
  "Object_values b = map snd b"

definition columns :: "string list" where
  "columns = [''Title'', ''Author'', ''Genre'', ''PublishedYear'', ''ISBN'']"

section \<open>Arrays\<close>

text \<open>
  \<^verbatim>\<open>currentData\<close> is written by index (\<^verbatim>\<open>newData[rowIndex] = ...\<close>). A JavaScript array
  written beyond its length grows, leaving empty slots between the old end and the new
  element; an empty slot reads as \<^verbatim>\<open>undefined\<close> and is skipped by \<^verbatim>\<open>filter\<close>, \<^verbatim>\<open>map\<close>, \<^verbatim>\<open>forEach\<close>.
  Such an array is a list of optional elements, \<open>None\<close> being an empty slot.
  \<^verbatim>\<open>originalData\<close> is only ever set to a freshly built array with no empty slot.
\<close>

definition array_get :: "'a option list \<Rightarrow> nat \<Rightarrow> 'a option" where
  "array_get xs i = (if i < length xs then xs ! i else None)"

definition array_set :: "'a option list \<Rightarrow> nat \<Rightarrow> 'a \<Rightarrow> 'a option list" where
  "array_set xs i v =
     (if i < length xs then xs[i := Some v]
      else xs @ replicate (i - length xs) None @ [Some v])"

definition elements :: "'a option list \<Rightarrow> 'a list" where
  "elements xs = List.map_filter id xs"

definition nth_opt :: "'a list \<Rightarrow> nat \<Rightarrow> 'a option" where
  "nth_opt xs i = (if i < length xs then Some (xs ! i) else None)"

text \<open>\<^verbatim>\<open>{...row, [k]: v}\<close>, where \<^verbatim>\<open>row\<close> may be \<^verbatim>\<open>undefined\<close>; and \<^verbatim>\<open>row?.[k]\<close>.\<close>

definition spread_set :: "book option \<Rightarrow> string \<Rightarrow> jsval \<Rightarrow> book" where
  "spread_set row k v = AList.update k v (case row of None \<Rightarrow> [] | Some b \<Rightarrow> b)"

definition opt_field :: "book option \<Rightarrow> string \<Rightarrow> jsval" where
  "opt_field row k = (case row of None \<Rightarrow> JUndef | Some b \<Rightarrow> get_field b k)"

section \<open>Session state\<close>

text \<open>
  The state cells of the component, but for the \<^verbatim>\<open>loading\<close> flag, which only drives a
  display. \<^verbatim>\<open>yearRange\<close> and \<^verbatim>\<open>sortConfig\<close> are objects of two fields each; \<^verbatim>\<open>edits\<close> is a
  \<^verbatim>\<open>Map\<close> from row indices to rows, of which only \<^verbatim>\<open>has\<close> and \<^verbatim>\<open>size\<close> are read.
\<close>

datatype direction = Asc | Desc

record app_state =
  originalData :: "book list"
  currentData :: "book option list"
  edits :: "nat \<rightharpoonup> book"
  filterText :: string
  filterGenre :: string
  yearRange_min :: int
  yearRange_max :: int
  showOnlyEdited :: bool
  sortConfig_key :: "string option"
  sortConfig_direction :: direction
  currentPage :: int
  pageSize :: nat

definition initial_state :: app_state where
  "initial_state = \<lparr> originalData = [], currentData = [], edits = Map.empty,
     filterText = [], filterGenre = [], yearRange_min = 0, yearRange_max = 9999,
     showOnlyEdited = False, sortConfig_key = None, sortConfig_direction = Asc,
     currentPage = 1, pageSize = 25 \<rparr>"

datatype error = TypeError | FormatError


section \<open>Loading: \<^verbatim>\<open>parseInt\<close> and the \<^verbatim>\<open>complete\<close> callback of \<^verbatim>\<open>handleFileUpload\<close>\<close>

text \<open>
  \<^verbatim>\<open>parseInt(string)\<close> with no radix: leading white space is dropped, then a sign, then a
  \<^verbatim>\<open>0x\<close> prefix selects radix 16, then the longest run of digits is read; no digit gives
  \<^verbatim>\<open>NaN\<close>, here \<open>None\<close>. White space is the white space and line terminators below 256.
\<close>

definition is_ws :: "char \<Rightarrow> bool" where
  "is_ws c = ((of_char c :: nat) \<in> {9, 10, 11, 12, 13, 32, 160})"

definition digit_of :: "char \<Rightarrow> nat option" where
  "digit_of c =
     (let n = (of_char c :: nat) in
      if 48 \<le> n \<and> n \<le> 57 then Some (n - 48)
      else if 97 \<le> n \<and> n \<le> 122 then Some (n - 87)
      else if 65 \<le> n \<and> n \<le> 90 then Some (n - 55)
      else None)"

definition is_radix_digit :: "nat \<Rightarrow> char \<Rightarrow> bool" where
  "is_radix_digit R c = (case digit_of c of None \<Rightarrow> False | Some d \<Rightarrow> d < R)"

definition radix_val :: "nat \<Rightarrow> string \<Rightarrow> nat" where
  "radix_val R ds = foldl (\<lambda>a c. R * a + (case digit_of c of None \<Rightarrow> 0 | Some d \<Rightarrow> d)) 0 ds"

definition parseInt_string :: "string \<Rightarrow> int option" where
  "parseInt_string inputString =
     (let S0 = dropWhile is_ws inputString;
          sign = (if take 1 S0 = ''-'' then - 1 else 1);
          S1 = (if take 1 S0 = ''-'' \<or> take 1 S0 = ''+'' then drop 1 S0 else S0);
          hex = (take 2 S1 = ''0x'' \<or> take 2 S1 = ''0X'');
          R = (if hex then 16 else 10);
          S2 = (if hex then drop 2 S1 else S1);
          Z = takeWhile (is_radix_digit R) S2
      in if Z = [] then None else Some (sign * int (radix_val R Z)))"

definition parseInt :: "jsval \<Rightarrow> int option" where
  "parseInt v = parseInt_string (ToString v)"

text \<open>
  A row as the CSV parser delivers it with \<^verbatim>\<open>header: true\<close>: an object from header names to
  the strings of the row; a field the row does not have is absent.
\<close>

type_synonym csv_row = "string \<rightharpoonup> string"

definition row_field :: "csv_row \<Rightarrow> string \<Rightarrow> jsval" where
  "row_field row k = (case row k of None \<Rightarrow> JUndef | Some s \<Rightarrow> JStr s)"

text \<open>
  The callback of \<^verbatim>\<open>results.data.map\<close>. \<^verbatim>\<open>parseInt(...) || 0\<close> is 0 for \<^verbatim>\<open>NaN\<close> and for 0.
\<close>

definition parsedRow :: "csv_row \<Rightarrow> nat \<Rightarrow> book" where
  "parsedRow row index =
     [(''id'', JNum (int index + 1)),
      (''Title'', js_or (row_field row ''Title'') (JStr [])),
      (''Author'', js_or (row_field row ''Author'') (JStr [])),
      (''Genre'', js_or (row_field row ''Genre'') (JStr [])),
      (''PublishedYear'',
         JNum (case parseInt (row_field row ''PublishedYear'') of
                 None \<Rightarrow> 0 | Some n \<Rightarrow> if n \<noteq> 0 then n else 0)),
      (''ISBN'', js_or (row_field row ''ISBN'') (JStr []))]"

definition parsedData :: "csv_row list \<Rightarrow> book list" where
  "parsedData data = map (\<lambda>(index, row). parsedRow row index) (enumerate 0 data)"

definition handleFileUpload :: "app_state \<Rightarrow> csv_row list \<Rightarrow> app_state" where
  "handleFileUpload st data =
     st\<lparr> originalData := parsedData data,
         currentData := map Some (parsedData data),
         edits := Map.empty,
         currentPage := 1 \<rparr>"

section \<open>Generating\<close>

text \<open>
  \<^verbatim>\<open>generateBookData\<close> draws each field at random; the draws are the argument here, one
  tuple (title, author, genre, year, ISBN) per book, so \<^verbatim>\<open>count\<close> is their number.
\<close>

type_synonym draw = "string \<times> string \<times> string \<times> int \<times> string"

definition generatedBook :: "nat \<Rightarrow> draw \<Rightarrow> book" where
  "generatedBook i d =
     (case d of (title, author, genre, year, isbn) \<Rightarrow>
        [(''id'', JNum (int i + 1)),
         (''Title'', JStr title),
         (''Author'', JStr author),
         (''Genre'', JStr genre),
         (''PublishedYear'', JNum year),
         (''ISBN'', JStr isbn)])"

definition generateBookData :: "draw list \<Rightarrow> book list" where
  "generateBookData draws = map (\<lambda>(i, d). generatedBook i d) (enumerate 0 draws)"

definition handleGenerateData :: "app_state \<Rightarrow> draw list \<Rightarrow> app_state" where
  "handleGenerateData st draws =
     st\<lparr> originalData := generateBookData draws,
         currentData := map Some (generateBookData draws),
         edits := Map.empty,
         currentPage := 1 \<rparr>"

section \<open>Editing and resetting\<close>

text \<open>
  \<^verbatim>\<open>handleCellEdit\<close> queues two updates. The first replaces slot \<^verbatim>\<open>rowIndex\<close> of a copy of
  \<^verbatim>\<open>currentData\<close>. The second recomputes the membership of \<^verbatim>\<open>rowIndex\<close> in \<^verbatim>\<open>edits\<close>: it reads
  \<^verbatim>\<open>originalRow[key]\<close> for the keys of the edited row, of which there is at least \<^verbatim>\<open>column\<close>,
  so with \<^verbatim>\<open>originalRow\<close> undefined it throws a \<^verbatim>\<open>TypeError\<close> and no new state is rendered.
\<close>

definition hasChanges :: "book \<Rightarrow> book \<Rightarrow> bool" where
  "hasChanges currentRow originalRow =
     list_ex (\<lambda>key. ToString (get_field currentRow key) \<noteq> ToString (get_field originalRow key))
       (Object_keys currentRow)"

definition handleCellEdit :: "app_state \<Rightarrow> nat \<Rightarrow> string \<Rightarrow> jsval \<Rightarrow> error + app_state" where
  "handleCellEdit st rowIndex column v =
     (let newData = array_set (currentData st) rowIndex
                      (spread_set (array_get (currentData st) rowIndex) column v);
          currentRow = spread_set (array_get (currentData st) rowIndex) column v
      in case nth_opt (originalData st) rowIndex of
           None \<Rightarrow> Inl TypeError
         | Some originalRow \<Rightarrow>
             Inr (st\<lparr> currentData := newData,
                      edits := (if hasChanges currentRow originalRow
                                then (edits st)(rowIndex \<mapsto> currentRow)
                                else (edits st)(rowIndex := None)) \<rparr>))"

definition handleResetEdits :: "app_state \<Rightarrow> app_state" where
  "handleResetEdits st = st\<lparr> currentData := map Some (originalData st), edits := Map.empty \<rparr>"

definition isCellEdited :: "app_state \<Rightarrow> nat \<Rightarrow> string \<Rightarrow> bool" where
  "isCellEdited st rowIndex column =
     (ToString (opt_field (nth_opt (originalData st) rowIndex) column)
        \<noteq> ToString (opt_field (array_get (currentData st) rowIndex) column))"

definition isRowEdited :: "app_state \<Rightarrow> nat \<Rightarrow> bool" where
  "isRowEdited st rowIndex = (edits st rowIndex \<noteq> None)"

text \<open>\<^verbatim>\<open>edits.size\<close>, shown as the number of edited rows.\<close>

definition edits_size :: "app_state \<Rightarrow> nat" where
  "edits_size st = card (dom (edits st))"

text \<open>The setters of the filter, sort and page settings, as the controls call them.\<close>

definition setFilterText :: "app_state \<Rightarrow> string \<Rightarrow> app_state" where
  "setFilterText st t = st\<lparr> filterText := t \<rparr>"

definition setFilterGenre :: "app_state \<Rightarrow> string \<Rightarrow> app_state" where
  "setFilterGenre st g = st\<lparr> filterGenre := g \<rparr>"

definition setYearRange :: "app_state \<Rightarrow> int \<Rightarrow> int \<Rightarrow> app_state" where
  "setYearRange st mn mx = st\<lparr> yearRange_min := mn, yearRange_max := mx \<rparr>"

definition setShowOnlyEdited :: "app_state \<Rightarrow> bool \<Rightarrow> app_state" where
  "setShowOnlyEdited st flag = st\<lparr> showOnlyEdited := flag \<rparr>"

definition setCurrentPage :: "app_state \<Rightarrow> int \<Rightarrow> app_state" where
  "setCurrentPage st n = st\<lparr> currentPage := n \<rparr>"

definition handlePageSizeChange :: "app_state \<Rightarrow> nat \<Rightarrow> app_state" where
  "handlePageSizeChange st newSize = st\<lparr> pageSize := newSize, currentPage := 1 \<rparr>"

definition handleSort :: "app_state \<Rightarrow> string \<Rightarrow> app_state" where
  "handleSort st key =
     st\<lparr> sortConfig_key := Some key,
         sortConfig_direction :=
           (if sortConfig_key st = Some key \<and> sortConfig_direction st = Asc then Desc else Asc) \<rparr>"

text \<open>
  The states of a session that loaded the collection \<open>c\<close>: a load or a generation, then
  cell edits that return, resets, and changes of the settings. The table only offers the
  cells of the fixed columns for editing.
\<close>

inductive session :: "book list \<Rightarrow> app_state \<Rightarrow> bool" where
  load: "session (parsedData data) (handleFileUpload st data)"
| generate: "session (generateBookData draws) (handleGenerateData st draws)"
| edit: "session c st \<Longrightarrow> column \<in> set columns \<Longrightarrow>
         handleCellEdit st rowIndex column v = Inr st' \<Longrightarrow> session c st'"
| reset: "session c st \<Longrightarrow> session c (handleResetEdits st)"
| filter_text: "session c st \<Longrightarrow> session c (setFilterText st t)"
| filter_genre: "session c st \<Longrightarrow> session c (setFilterGenre st g)"
| year_range: "session c st \<Longrightarrow> session c (setYearRange st mn mx)"
| only_edited: "session c st \<Longrightarrow> session c (setShowOnlyEdited st flag)"
| page: "session c st \<Longrightarrow> session c (setCurrentPage st n)"
| page_size: "session c st \<Longrightarrow> session c (handlePageSizeChange st newSize)"
| sort: "session c st \<Longrightarrow> session c (handleSort st key)"

section \<open>The variant of the edit handlers\<close>

text \<open>
  The repository holds a second copy of \<^verbatim>\<open>src/App.js\<close> whose \<^verbatim>\<open>handleCellEdit\<close> and
  \<^verbatim>\<open>isCellEdited\<close> differ: the delta is recomputed inside the update of \<^verbatim>\<open>currentData\<close>, over
  the fixed columns, comparing \<^verbatim>\<open>String(v || '')\<close>, and reads the original row with \<^verbatim>\<open>?.\<close>,
  so it never throws; \<^verbatim>\<open>isCellEdited\<close> answers \<^verbatim>\<open>false\<close> first for an index beyond
  \<^verbatim>\<open>originalData\<close>.
\<close>

definition hasChanges_variant :: "book \<Rightarrow> book option \<Rightarrow> bool" where
  "hasChanges_variant updatedRow originalRow =
     list_ex (\<lambda>col. ToString (js_or (get_field updatedRow col) (JStr []))
                     \<noteq> ToString (js_or (opt_field originalRow col) (JStr [])))
       columns"

definition handleCellEdit_variant :: "app_state \<Rightarrow> nat \<Rightarrow> string \<Rightarrow> jsval \<Rightarrow> app_state" where
  "handleCellEdit_variant st rowIndex column v =
     (let updatedRow = spread_set (array_get (currentData st) rowIndex) column v;
          newData = array_set (currentData st) rowIndex updatedRow;
          originalRow = nth_opt (originalData st) rowIndex
      in st\<lparr> currentData := newData,
              edits := (if hasChanges_variant updatedRow originalRow
                        then (edits st)(rowIndex \<mapsto> updatedRow)
                        else (edits st)(rowIndex := None)) \<rparr>)"

definition isCellEdited_variant :: "app_state \<Rightarrow> nat \<Rightarrow> string \<Rightarrow> bool" where
  "isCellEdited_variant st rowIndex column =
     (if rowIndex \<ge> length (originalData st) then False
      else ToString (js_or (opt_field (nth_opt (originalData st) rowIndex) column) (JStr []))
             \<noteq> ToString (js_or (opt_field (array_get (currentData st) rowIndex) column) (JStr [])))"

text \<open>
  The states of a session run with the variant handler, on the collection \<open>c\<close>: as
  before, with the edits at indices within the collection.
\<close>

inductive session_variant :: "book list \<Rightarrow> app_state \<Rightarrow> bool" where
  load: "session_variant (parsedData data) (handleFileUpload st data)"
| generate: "session_variant (generateBookData draws) (handleGenerateData st draws)"
| edit: "session_variant c st \<Longrightarrow> rowIndex < length (currentData st) \<Longrightarrow>
         session_variant c (handleCellEdit_variant st rowIndex column v)"
| reset: "session_variant c st \<Longrightarrow> session_variant c (handleResetEdits st)"

section \<open>Comparing values\<close>

text \<open>
  \<^verbatim>\<open><\<close>, \<^verbatim>\<open>>\<close>, \<^verbatim>\<open><=\<close>, \<^verbatim>\<open>>=\<close> compare two strings by code units and anything else as
  numbers, after \<^verbatim>\<open>ToNumber\<close>; a comparison with \<^verbatim>\<open>NaN\<close> is false. \<^verbatim>\<open>ToNumber\<close> of a string reads
  a numeric literal between white space: empty is 0, a decimal literal with optional sign,
  fraction and exponent, \<^verbatim>\<open>Infinity\<close>, or an unsigned hexadecimal, octal or binary integer;
  anything else is \<^verbatim>\<open>NaN\<close>. The value of a literal is its exact rational value.
\<close>

datatype number = NaN | NegInf | Fin rat | PosInf

fun num_lt :: "number \<Rightarrow> number \<Rightarrow> bool" where
  "num_lt NaN y = False"
| "num_lt x NaN = False"
| "num_lt PosInf y = False"
| "num_lt x NegInf = False"
| "num_lt NegInf y = True"
| "num_lt x PosInf = True"
| "num_lt (Fin a) (Fin b) = (a < b)"

definition num_le :: "number \<Rightarrow> number \<Rightarrow> bool" where
  "num_le x y = (x \<noteq> NaN \<and> y \<noteq> NaN \<and> \<not> num_lt y x)"

definition trim :: "string \<Rightarrow> string" where
  "trim s = rev (dropWhile is_ws (rev (dropWhile is_ws s)))"

definition scale10 :: "rat \<Rightarrow> int \<Rightarrow> rat" where
  "scale10 m e = (if e \<ge> 0 then m * 10 ^ nat e else m / 10 ^ nat (- e))"

definition StrUnsignedDecimalLiteral :: "string \<Rightarrow> number" where
  "StrUnsignedDecimalLiteral s =
     (if s = ''Infinity'' then PosInf
      else
        let ip = takeWhile (is_radix_digit 10) s;
            r1 = dropWhile (is_radix_digit 10) s;
            dot = (take 1 r1 = ''.'');
            fp = (if dot then takeWhile (is_radix_digit 10) (drop 1 r1) else []);
            r2 = (if dot then dropWhile (is_radix_digit 10) (drop 1 r1) else r1);
            hasexp = (take 1 r2 = ''e'' \<or> take 1 r2 = ''E'');
            r3 = drop 1 r2;
            esign = (if take 1 r3 = ''-'' then - 1 else 1);
            r4 = (if take 1 r3 = ''-'' \<or> take 1 r3 = ''+'' then drop 1 r3 else r3);
            ep = takeWhile (is_radix_digit 10) r4;
            rest = dropWhile (is_radix_digit 10) r4
        in if ip = [] \<and> fp = [] then NaN
           else if hasexp then
             (if ep = [] \<or> rest \<noteq> [] then NaN
              else Fin (scale10 (of_nat (radix_val 10 ip) + of_nat (radix_val 10 fp) / 10 ^ length fp)
                         (esign * int (radix_val 10 ep))))
           else if r2 \<noteq> [] then NaN
           else Fin (of_nat (radix_val 10 ip) + of_nat (radix_val 10 fp) / 10 ^ length fp))"

definition NonDecimalIntegerLiteral :: "nat \<Rightarrow> string \<Rightarrow> number" where
  "NonDecimalIntegerLiteral R ds =
     (if ds \<noteq> [] \<and> list_all (is_radix_digit R) ds then Fin (of_nat (radix_val R ds)) else NaN)"

fun negate :: "number \<Rightarrow> number" where
  "negate NaN = NaN"
| "negate NegInf = PosInf"
| "negate PosInf = NegInf"
| "negate (Fin a) = Fin (- a)"

definition StringToNumber :: "string \<Rightarrow> number" where
  "StringToNumber s =
     (let t = trim s in
      if t = [] then Fin 0
      else if take 2 t = ''0x'' \<or> take 2 t = ''0X'' then NonDecimalIntegerLiteral 16 (drop 2 t)
      else if take 2 t = ''0o'' \<or> take 2 t = ''0O'' then NonDecimalIntegerLiteral 8 (drop 2 t)
      else if take 2 t = ''0b'' \<or> take 2 t = ''0B'' then NonDecimalIntegerLiteral 2 (drop 2 t)
      else if take 1 t = ''-'' then negate (StrUnsignedDecimalLiteral (drop 1 t))
      else if take 1 t = ''+'' then StrUnsignedDecimalLiteral (drop 1 t)
      else StrUnsignedDecimalLiteral t)"

fun ToNumber :: "jsval \<Rightarrow> number" where
  "ToNumber JUndef = NaN"
| "ToNumber (JNum n) = Fin (of_int n)"
| "ToNumber (JStr s) = StringToNumber s"

fun js_lt :: "jsval \<Rightarrow> jsval \<Rightarrow> bool" where
  "js_lt (JStr s) (JStr t) = (s < t)"
| "js_lt a b = num_lt (ToNumber a) (ToNumber b)"

definition js_gt :: "jsval \<Rightarrow> jsval \<Rightarrow> bool" where
  "js_gt a b = js_lt b a"

fun js_le :: "jsval \<Rightarrow> jsval \<Rightarrow> bool" where
  "js_le (JStr s) (JStr t) = (\<not> t < s)"
| "js_le a b = num_le (ToNumber a) (ToNumber b)"

definition js_ge :: "jsval \<Rightarrow> jsval \<Rightarrow> bool" where
  "js_ge a b = js_le b a"

fun is_number :: "jsval \<Rightarrow> bool" where
  "is_number (JNum n) = True"
| "is_number v = False"

fun is_string :: "jsval \<Rightarrow> bool" where
  "is_string (JStr s) = True"
| "is_string v = False"

section \<open>The query pipeline: \<^verbatim>\<open>filteredData\<close>\<close>

text \<open>
  \<^verbatim>\<open>toLowerCase\<close> on code units below 256: the Latin capital letters, and the capitals of
  Latin-1 (all of \<open>C0\<close> to \<open>DE\<close> but the multiplication sign), move up by 32.
\<close>

definition toLowerCase_char :: "char \<Rightarrow> char" where
  "toLowerCase_char c =
     (let n = (of_char c :: nat) in
      if (65 \<le> n \<and> n \<le> 90) \<or> (192 \<le> n \<and> n \<le> 222 \<and> n \<noteq> 215)
      then char_of (n + 32) else c)"

definition toLowerCase :: "string \<Rightarrow> string" where
  "toLowerCase s = map toLowerCase_char s"

text \<open>\<^verbatim>\<open>s.includes(t)\<close>: \<open>t\<close> occurs in \<open>s\<close> as a contiguous run.\<close>

fun String_includes :: "string \<Rightarrow> string \<Rightarrow> bool" where
  "String_includes [] t = (t = [])"
| "String_includes (c # cs) t = (prefix t (c # cs) \<or> String_includes cs t)"

definition textFilter :: "string \<Rightarrow> book list \<Rightarrow> book list" where
  "textFilter ft filtered =
     (if ft \<noteq> [] then
        (let searchText = toLowerCase ft in
         filter (\<lambda>book. list_ex (\<lambda>v. String_includes (toLowerCase (ToString v)) searchText)
                          (Object_values book)) filtered)
      else filtered)"

definition genreFilter :: "string \<Rightarrow> book list \<Rightarrow> book list" where
  "genreFilter fg filtered =
     (if fg \<noteq> [] then filter (\<lambda>book. get_field book ''Genre'' = JStr fg) filtered
      else filtered)"

definition yearFilter :: "int \<Rightarrow> int \<Rightarrow> book list \<Rightarrow> book list" where
  "yearFilter mn mx filtered =
     filter (\<lambda>book. js_ge (get_field book ''PublishedYear'') (JNum mn) \<and>
                    js_le (get_field book ''PublishedYear'') (JNum mx)) filtered"

text \<open>
  \<^verbatim>\<open>filtered.filter((_, index) => edits.has(index))\<close>: the callback receives the position
  of the element in the array being filtered.
\<close>

definition editedFilter :: "bool \<Rightarrow> (nat \<rightharpoonup> book) \<Rightarrow> book list \<Rightarrow> book list" where
  "editedFilter flag ed filtered =
     (if flag then map snd (filter (\<lambda>(index, book). ed index \<noteq> None) (enumerate 0 filtered))
      else filtered)"

text \<open>
  \<^verbatim>\<open>Array.prototype.sort\<close> with a comparator is stable, and for a consistent comparator its
  result is the one stable arrangement; which algorithm produces it is the engine's
  choice. Insertion from the right is one that does.
\<close>

fun insort_cmp :: "('a \<Rightarrow> 'a \<Rightarrow> int) \<Rightarrow> 'a \<Rightarrow> 'a list \<Rightarrow> 'a list" where
  "insort_cmp cmp x [] = [x]"
| "insort_cmp cmp x (y # ys) = (if cmp x y \<le> 0 then x # y # ys else y # insort_cmp cmp x ys)"

definition Array_sort :: "('a \<Rightarrow> 'a \<Rightarrow> int) \<Rightarrow> 'a list \<Rightarrow> 'a list" where
  "Array_sort cmp xs = foldr (insort_cmp cmp) xs []"

definition compareBooks :: "string \<Rightarrow> direction \<Rightarrow> book \<Rightarrow> book \<Rightarrow> int" where
  "compareBooks key dir a b =
     (let aValue = get_field a key; bValue = get_field b key in
      if js_lt aValue bValue then (if dir = Asc then - 1 else 1)
      else if js_gt aValue bValue then (if dir = Asc then 1 else - 1)
      else 0)"

definition sortStage :: "string option \<Rightarrow> direction \<Rightarrow> book list \<Rightarrow> book list" where
  "sortStage key dir filtered =
     (case key of
        None \<Rightarrow> filtered
      | Some k \<Rightarrow> if k \<noteq> [] then Array_sort (compareBooks k dir) filtered else filtered)"

text \<open>
  The stages in the order of the source. Each \<^verbatim>\<open>filter\<close> visits the elements of its array
  and skips empty slots, so the pipeline runs on the elements of \<^verbatim>\<open>currentData\<close>; the year
  filter always runs, so the array the edited-rows filter indexes has no empty slot.
\<close>

definition filteredData :: "app_state \<Rightarrow> book list" where
  "filteredData st =
     sortStage (sortConfig_key st) (sortConfig_direction st)
       (editedFilter (showOnlyEdited st) (edits st)
          (yearFilter (yearRange_min st) (yearRange_max st)
             (genreFilter (filterGenre st)
                (textFilter (filterText st) (elements (currentData st))))))"

section \<open>Pagination\<close>

text \<open>
  \<^verbatim>\<open>Math.ceil(filteredData.length / pageSize)\<close>; the page size is 25 at the start and then one
  of the options 10, 25, 50, 100 of the selector, never 0. \<^verbatim>\<open>slice\<close> counts a negative
  bound from the end and clips both bounds to the array.
\<close>

definition totalPages_of :: "nat \<Rightarrow> nat \<Rightarrow> int" where
  "totalPages_of len psize = \<lceil>real len / real psize\<rceil>"

definition totalPages :: "app_state \<Rightarrow> int" where
  "totalPages st = totalPages_of (length (filteredData st)) (pageSize st)"

definition startIndex :: "app_state \<Rightarrow> int" where
  "startIndex st = (currentPage st - 1) * int (pageSize st)"

definition Array_slice :: "'a list \<Rightarrow> int \<Rightarrow> int \<Rightarrow> 'a list" where
  "Array_slice xs start fin =
     (let len = int (length xs);
          k = (if start < 0 then max (len + start) 0 else min start len);
          final = (if fin < 0 then max (len + fin) 0 else min fin len)
      in take (nat (final - k)) (drop (nat k) xs))"

definition paginatedData :: "app_state \<Rightarrow> book list" where
  "paginatedData st =
     Array_slice (filteredData st) (startIndex st) (startIndex st + int (pageSize st))"

section \<open>Export: \<^verbatim>\<open>booksToCSV\<close>\<close>






section \<open>Import: the delimited text that is parsed\<close>








section \<open>Example session\<close>

text \<open>
  The session of the specification's example: two books are loaded (\<open>example_loaded\<close>) and
  the title of the first is edited to \<^verbatim>\<open>Z\<close> (\<open>example_edited\<close>, the state that the edit
  returns) and then back to \<^verbatim>\<open>A\<close>. In \<open>example_years\<close> the year cells of the two loaded
  books were edited instead.
\<close>

definition example_rows :: "csv_row list" where
  "example_rows =
     [[''Title'' \<mapsto> ''A'', ''Author'' \<mapsto> ''Ann'', ''Genre'' \<mapsto> ''Drama'',
       ''PublishedYear'' \<mapsto> ''1990'', ''ISBN'' \<mapsto> ''111''],
      [''Title'' \<mapsto> ''B'', ''Author'' \<mapsto> ''Bob'', ''Genre'' \<mapsto> ''Poetry'',
       ''PublishedYear'' \<mapsto> ''1985'', ''ISBN'' \<mapsto> ''333'']]"

definition book_A :: book where
  "book_A = [(''id'', JNum 1), (''Title'', JStr ''A''), (''Author'', JStr ''Ann''),
     (''Genre'', JStr ''Drama''), (''PublishedYear'', JNum 1990), (''ISBN'', JStr ''111'')]"

definition book_B :: book where
  "book_B = [(''id'', JNum 2), (''Title'', JStr ''B''), (''Author'', JStr ''Bob''),
     (''Genre'', JStr ''Poetry''), (''PublishedYear'', JNum 1985), (''ISBN'', JStr ''333'')]"

definition book_Z :: book where
  "book_Z = [(''id'', JNum 1), (''Title'', JStr ''Z''), (''Author'', JStr ''Ann''),
     (''Genre'', JStr ''Drama''), (''PublishedYear'', JNum 1990), (''ISBN'', JStr ''111'')]"

text \<open>The two books after their year cells were given the texts \<^verbatim>\<open>999\<close> and \<^verbatim>\<open>1990\<close>.\<close>

definition book_A999 :: book where
  "book_A999 = [(''id'', JNum 1), (''Title'', JStr ''A''), (''Author'', JStr ''Ann''),
     (''Genre'', JStr ''Drama''), (''PublishedYear'', JStr ''999''), (''ISBN'', JStr ''111'')]"

definition book_B1990 :: book where
  "book_B1990 = [(''id'', JNum 2), (''Title'', JStr ''B''), (''Author'', JStr ''Bob''),
     (''Genre'', JStr ''Poetry''), (''PublishedYear'', JStr ''1990''), (''ISBN'', JStr ''333'')]"

definition example_loaded :: app_state where
  "example_loaded = handleFileUpload initial_state example_rows"

definition example_edited :: app_state where
  "example_edited = example_loaded\<lparr> currentData := [Some book_Z, Some book_B],
     edits := [0 \<mapsto> book_Z] \<rparr>"

definition example_years :: app_state where
  "example_years = example_loaded\<lparr> currentData := [Some book_A999, Some book_B1990],
     edits := [0 \<mapsto> book_A999, 1 \<mapsto> book_B1990] \<rparr>"

section \<open>The invariant of a session\<close>

text \<open>
  What every state of a session satisfies: \<^verbatim>\<open>originalData\<close> is the loaded collection, the
  two collections have the same length, no slot of \<^verbatim>\<open>currentData\<close> is empty, every book
  has the key \<^verbatim>\<open>id\<close> followed by the fixed columns, \<^verbatim>\<open>id\<close> is as loaded, and \<^verbatim>\<open>edits\<close> holds
  exactly the indices of the books that differ from their original in the string of some
  column.
\<close>

definition row_inv :: "book \<Rightarrow> book option \<Rightarrow> bool \<Rightarrow> bool" where
  "row_inv originalRow slot edited =
     (case slot of
        None \<Rightarrow> False
      | Some b \<Rightarrow>
          map fst b = ''id'' # columns \<and>
          map fst originalRow = ''id'' # columns \<and>
          get_field b ''id'' = get_field originalRow ''id'' \<and>
          (edited \<longleftrightarrow>
             list_ex (\<lambda>c. ToString (get_field b c) \<noteq> ToString (get_field originalRow c)) columns))"

definition session_inv :: "book list \<Rightarrow> app_state \<Rightarrow> bool" where
  "session_inv c st \<longleftrightarrow>
     originalData st = c \<and>
     length (currentData st) = length (originalData st) \<and>
     (\<forall>i < length (originalData st).
        row_inv (originalData st ! i) (currentData st ! i) (edits st i \<noteq> None)) \<and>
     (\<forall>i \<ge> length (originalData st). edits st i = None)"

text \<open>The same for the variant handler, with the comparison it makes.\<close>

definition variant_inv :: "book list \<Rightarrow> app_state \<Rightarrow> bool" where
  "variant_inv c st \<longleftrightarrow>
     originalData st = c \<and>
     length (currentData st) = length c \<and>
     list_all (\<lambda>slot. slot \<noteq> None) (currentData st) \<and>
     list_all (\<lambda>i. (edits st i \<noteq> None) = hasChanges_variant
                      (case currentData st ! i of None \<Rightarrow> [] | Some b \<Rightarrow> b) (Some (c ! i)))
       [0 ..< length c] \<and>
     dom (edits st) \<subseteq> {..< length c}"

section \<open>Edit tracking\<close>

lemma session_inv_length: "session_inv c st \<Longrightarrow> length (currentData st) = length (originalData st)"
  by (simp add: session_inv_def)

lemma session_inv_row:
  "session_inv c st \<Longrightarrow> i < length (originalData st) \<Longrightarrow>
     row_inv (originalData st ! i) (currentData st ! i) (edits st i \<noteq> None)"
  by (auto simp: session_inv_def)

lemma session_inv_original: "session_inv c st \<Longrightarrow> originalData st = c"
  by (simp add: session_inv_def)

lemma session_inv_beyond:
  "session_inv c st \<Longrightarrow> length (originalData st) \<le> i \<Longrightarrow> edits st i = None"
  by (simp add: session_inv_def)

lemma row_inv_Some:
  assumes "row_inv originalRow slot edited"
  obtains b where "slot = Some b" "map fst b = ''id'' # columns"
    "map fst originalRow = ''id'' # columns"
    "get_field b ''id'' = get_field originalRow ''id''"
    "edited \<longleftrightarrow>
       list_ex (\<lambda>c. ToString (get_field b c) \<noteq> ToString (get_field originalRow c)) columns"
proof (cases slot)
  case None
  with assms show ?thesis by (simp add: row_inv_def)
next
  case (Some b)
  with assms that[of b] show ?thesis by (simp add: row_inv_def)
qed

lemma row_inv_fresh:
  "map fst b = ''id'' # columns \<Longrightarrow> row_inv b (Some b) False"
  by (simp add: row_inv_def list_ex_iff)

lemma parsedRow_keys: "map fst (parsedRow row index) = ''id'' # columns"
  by (simp add: parsedRow_def columns_def)

lemma generatedBook_keys: "map fst (generatedBook i d) = ''id'' # columns"
  by (cases d) (simp add: generatedBook_def columns_def)

lemma parsedData_nth:
  "i < length data \<Longrightarrow> parsedData data ! i = parsedRow (data ! i) i"
  by (simp add: parsedData_def nth_enumerate_eq)

lemma generateBookData_nth:
  "i < length draws \<Longrightarrow> generateBookData draws ! i = generatedBook i (draws ! i)"
  by (simp add: generateBookData_def nth_enumerate_eq)

lemma length_parsedData: "length (parsedData data) = length data"
  by (simp add: parsedData_def)

lemma length_generateBookData: "length (generateBookData draws) = length draws"
  by (simp add: generateBookData_def)

lemma inv_load: "session_inv (parsedData data) (handleFileUpload st data)"
  by (simp add: session_inv_def handleFileUpload_def length_parsedData parsedData_nth
      row_inv_fresh parsedRow_keys)

lemma inv_generate: "session_inv (generateBookData draws) (handleGenerateData st draws)"
  by (simp add: session_inv_def handleGenerateData_def length_generateBookData
      generateBookData_nth row_inv_fresh generatedBook_keys)

lemma inv_reset:
  assumes "session_inv c st"
  shows "session_inv c (handleResetEdits st)"
proof -
  have "row_inv (originalData st ! i) (Some (originalData st ! i)) False"
    if "i < length (originalData st)" for i
  proof -
    from session_inv_row[OF assms that] obtain b where
      "map fst (originalData st ! i) = ''id'' # columns"
      by (rule row_inv_Some)
    then show ?thesis by (rule row_inv_fresh)
  qed
  with session_inv_original[OF assms] show ?thesis
    by (auto simp: session_inv_def handleResetEdits_def)
qed

lemma get_field_update: "get_field (AList.update k v b) k' = (if k' = k then v else get_field b k')"
  by (simp add: get_field_def update_conv')

lemma handleCellEdit_Inr_range:
  "handleCellEdit st rowIndex column v = Inr st' \<Longrightarrow> rowIndex < length (originalData st)"
  by (simp add: handleCellEdit_def nth_opt_def Let_def split: if_splits)

lemma handleCellEdit_in_range:
  assumes "rowIndex < length (originalData st)"
    and "length (currentData st) = length (originalData st)"
    and "currentData st ! rowIndex = Some b"
  shows "handleCellEdit st rowIndex column v =
     Inr (st\<lparr> currentData := (currentData st)[rowIndex := Some (AList.update column v b)],
              edits := (if hasChanges (AList.update column v b) (originalData st ! rowIndex)
                        then (edits st)(rowIndex \<mapsto> AList.update column v b)
                        else (edits st)(rowIndex := None)) \<rparr>)"
  using assms
  by (simp add: handleCellEdit_def nth_opt_def Let_def array_set_def array_get_def spread_set_def)

lemma column_not_id: "column \<in> set columns \<Longrightarrow> column \<noteq> ''id''"
  by (auto simp: columns_def)

lemma hasChanges_columns:
  assumes "map fst b = ''id'' # columns" and "column \<in> set columns"
    and "get_field b ''id'' = get_field originalRow ''id''"
  shows "hasChanges (AList.update column v b) originalRow \<longleftrightarrow>
      list_ex (\<lambda>c. ToString (get_field (AList.update column v b) c)
                     \<noteq> ToString (get_field originalRow c)) columns"
proof -
  have "map fst (AList.update column v b) = ''id'' # columns"
    using assms(1,2) by (simp add: update_keys)
  then show ?thesis
    using assms(3) column_not_id[OF assms(2)]
    by (simp add: hasChanges_def Object_keys_def get_field_update)
qed

lemma inv_edit:
  assumes I: "session_inv c st" and c: "column \<in> set columns"
    and e: "handleCellEdit st rowIndex column v = Inr st'"
  shows "session_inv c st'"
proof -
  from e have r: "rowIndex < length (originalData st)"
    by (rule handleCellEdit_Inr_range)
  note len = session_inv_length[OF I]
  from session_inv_row[OF I r] obtain b where b: "currentData st ! rowIndex = Some b"
      "map fst b = ''id'' # columns" "map fst (originalData st ! rowIndex) = ''id'' # columns"
      "get_field b ''id'' = get_field (originalData st ! rowIndex) ''id''"
    by (rule row_inv_Some)
  let ?row = "AList.update column v b"
  let ?o = "originalData st ! rowIndex"
  have keys: "map fst ?row = ''id'' # columns"
    using b(2) c by (simp add: update_keys)
  note hc = hasChanges_columns[OF b(2) c b(4), of v]
  have st': "st' = st\<lparr> currentData := (currentData st)[rowIndex := Some ?row],
                      edits := (if hasChanges ?row ?o then (edits st)(rowIndex \<mapsto> ?row)
                                else (edits st)(rowIndex := None)) \<rparr>"
    using e handleCellEdit_in_range[OF r len b(1), of column v] by simp
  have new: "row_inv ?o (Some ?row) (hasChanges ?row ?o)"
    using keys b(3,4) column_not_id[OF c] hc
    by (simp add: row_inv_def get_field_update)
  have rows: "row_inv (originalData st' ! i) (currentData st' ! i) (edits st' i \<noteq> None)"
    if i: "i < length (originalData st')" for i
  proof (cases "i = rowIndex")
    case True
    with new r len show ?thesis by (cases "hasChanges ?row ?o") (simp_all add: st')
  next
    case False
    from i have "i < length (originalData st)" by (simp add: st')
    from session_inv_row[OF I this] False show ?thesis by (simp add: st')
  qed
  have beyond: "edits st' i = None" if "length (originalData st') \<le> i" for i
  proof -
    from that have "length (originalData st) \<le> i" by (simp add: st')
    from session_inv_beyond[OF I this] this r show ?thesis by (simp add: st')
  qed
  have "length (currentData st') = length (originalData st')"
    using len by (simp add: st')
  moreover have "originalData st' = c"
    using session_inv_original[OF I] by (simp add: st')
  ultimately show ?thesis using rows beyond by (simp add: session_inv_def)
qed

lemma inv_settings:
  assumes "session_inv c st"
  shows "session_inv c (setFilterText st t)" "session_inv c (setFilterGenre st g)"
    "session_inv c (setYearRange st mn mx)" "session_inv c (setShowOnlyEdited st flag)"
    "session_inv c (setCurrentPage st n)" "session_inv c (handlePageSizeChange st newSize)"
    "session_inv c (handleSort st key)"
  using assms
  by (auto simp: session_inv_def setFilterText_def setFilterGenre_def setYearRange_def
      setShowOnlyEdited_def setCurrentPage_def handlePageSizeChange_def handleSort_def)

lemma session_inv: "session c st \<Longrightarrow> session_inv c st"
proof (induction rule: session.induct)
  case (load data st)
  show ?case by (rule inv_load)
next
  case (generate draws st)
  show ?case by (rule inv_generate)
next
  case (edit c st column rowIndex v st')
  then show ?case by (blast intro: inv_edit)
next
  case (reset c st)
  then show ?case by (blast intro: inv_reset)
qed (simp_all add: inv_settings)


lemma isCellEdited_beyond:
  assumes "length (originalData st) \<le> i" "length (currentData st) = length (originalData st)"
  shows "\<not> isCellEdited st i c"
  using assms by (simp add: isCellEdited_def nth_opt_def array_get_def opt_field_def)


subsection \<open>The example session, evaluated\<close>

lemma parsedData_example: "parsedData example_rows = [book_A, book_B]"
  by (simp add: parsedData_def parsedRow_def example_rows_def row_field_def js_or_def
      parseInt_def parseInt_string_def is_ws_def is_radix_digit_def digit_of_def radix_val_def
      book_A_def book_B_def)

lemma example_loaded_fields:
  "originalData example_loaded = [book_A, book_B]"
  "currentData example_loaded = [Some book_A, Some book_B]"
  "edits example_loaded = Map.empty"
  "currentPage example_loaded = 1"
  by (simp_all add: example_loaded_def handleFileUpload_def parsedData_example)

lemma example_loaded_session: "session [book_A, book_B] example_loaded"
  using session.load[of example_rows initial_state] by (simp add: example_loaded_def parsedData_example)

lemma hasChanges_Z_A: "hasChanges book_Z book_A"
  by (simp add: hasChanges_def Object_keys_def book_Z_def book_A_def get_field_def)


lemma update_A_Z: "AList.update ''Title'' (JStr ''Z'') book_A = book_Z"
  by (simp add: book_A_def book_Z_def)


lemma example_edit_step:
  "handleCellEdit example_loaded 0 ''Title'' (JStr ''Z'') = Inr example_edited"
proof -
  have "handleCellEdit example_loaded 0 ''Title'' (JStr ''Z'') =
     Inr (example_loaded\<lparr> currentData := (currentData example_loaded)[0 := Some book_Z],
              edits := (edits example_loaded)(0 \<mapsto> book_Z) \<rparr>)"
    using handleCellEdit_in_range[of 0 example_loaded book_A "''Title''" "JStr ''Z''"]
    by (simp add: example_loaded_fields update_A_Z hasChanges_Z_A)
  then show ?thesis by (simp add: example_edited_def example_loaded_fields)
qed

lemma example_edited_fields:
  "originalData example_edited = [book_A, book_B]"
  "currentData example_edited = [Some book_Z, Some book_B]"
  "edits example_edited = [0 \<mapsto> book_Z]"
  by (simp_all add: example_edited_def example_loaded_fields)


lemma example_edited_session: "session [book_A, book_B] example_edited"
  by (rule session.edit[OF example_loaded_session _ example_edit_step]) (simp add: columns_def)



section \<open>Edit tracking with the variant handler\<close>

lemma hasChanges_variant_same: "\<not> hasChanges_variant b (Some b)"
  by (simp add: hasChanges_variant_def opt_field_def list_ex_iff)

lemma variant_inv_fresh:
  "originalData st = c \<Longrightarrow> currentData st = map Some c \<Longrightarrow> edits st = Map.empty \<Longrightarrow>
     variant_inv c st"
  by (simp add: variant_inv_def list_all_iff hasChanges_variant_same)

lemma variant_inv_load: "variant_inv (parsedData data) (handleFileUpload st data)"
  by (rule variant_inv_fresh) (simp_all add: handleFileUpload_def)

lemma variant_inv_generate:
  "variant_inv (generateBookData draws) (handleGenerateData st draws)"
  by (rule variant_inv_fresh) (simp_all add: handleGenerateData_def)

lemma variant_inv_reset:
  assumes "variant_inv c st"
  shows "variant_inv c (handleResetEdits st)"
proof -
  from assms have "originalData st = c" by (simp add: variant_inv_def)
  then show ?thesis by (intro variant_inv_fresh) (simp_all add: handleResetEdits_def)
qed

lemma variant_inv_edit:
  assumes I: "variant_inv c st" and r: "rowIndex < length (currentData st)"
  shows "variant_inv c (handleCellEdit_variant st rowIndex column v)"
proof -
  from I have o: "originalData st = c" and len: "length (currentData st) = length c"
    and full: "list_all (\<lambda>slot. slot \<noteq> None) (currentData st)"
    and ed: "\<And>i. i < length c \<Longrightarrow> (edits st i \<noteq> None) = hasChanges_variant
        (case currentData st ! i of None \<Rightarrow> [] | Some b \<Rightarrow> b) (Some (c ! i))"
    and dm: "dom (edits st) \<subseteq> {..< length c}"
    by (simp_all add: variant_inv_def list_all_iff)
  from full r obtain b where b: "currentData st ! rowIndex = Some b"
    by (auto simp: list_all_length)
  let ?row = "AList.update column v b"
  let ?st' = "handleCellEdit_variant st rowIndex column v"
  from r len have r': "rowIndex < length c" by simp
  have st': "?st' = st\<lparr> currentData := (currentData st)[rowIndex := Some ?row],
      edits := (if hasChanges_variant ?row (Some (c ! rowIndex))
                then (edits st)(rowIndex \<mapsto> ?row) else (edits st)(rowIndex := None)) \<rparr>"
    using r r' b o
    by (simp add: handleCellEdit_variant_def Let_def array_get_def array_set_def spread_set_def
        nth_opt_def)
  have 1: "originalData ?st' = c" "length (currentData ?st') = length c"
    using o len by (simp_all add: st')
  have 2: "list_all (\<lambda>slot. slot \<noteq> None) (currentData ?st')"
    using full by (auto simp: st' list_all_iff dest: set_update_subset_insert[THEN subsetD])
  have 3: "(edits ?st' i \<noteq> None) = hasChanges_variant
        (case currentData ?st' ! i of None \<Rightarrow> [] | Some b \<Rightarrow> b) (Some (c ! i))"
    if "i < length c" for i
  proof (cases "i = rowIndex")
    case True
    with r show ?thesis by (simp add: st')
  next
    case False
    with ed[OF that] show ?thesis by (simp add: st')
  qed
  have 4: "dom (edits ?st') \<subseteq> {..< length c}"
    using dm r' by (auto simp: st' split: if_splits)
  from 1 2 3 4 show ?thesis by (simp add: variant_inv_def list_all_iff)
qed

lemma session_variant_inv: "session_variant c st \<Longrightarrow> variant_inv c st"
proof (induction rule: session_variant.induct)
  case (load data st)
  show ?case by (rule variant_inv_load)
next
  case (generate draws st)
  show ?case by (rule variant_inv_generate)
next
  case (edit c st rowIndex column v)
  then show ?case by (blast intro: variant_inv_edit)
next
  case (reset c st)
  then show ?case by (blast intro: variant_inv_reset)
qed

text \<open>
  With the variant handler the delta set holds exactly the indices of the books that
  differ from their original in some column under the comparison of the variant, which
  takes \<^verbatim>\<open>0\<close>, the empty string and \<^verbatim>\<open>undefined\<close> for the empty string before it compares the
  strings.
\<close>

lemma delta_invariant_variant:
  assumes "session_variant c st"
  shows "isRowEdited st i \<longleftrightarrow> list_ex (isCellEdited_variant st i) columns"
proof -
  note I = session_variant_inv[OF assms]
  from I have o: "originalData st = c" and len: "length (currentData st) = length c"
    and full: "list_all (\<lambda>slot. slot \<noteq> None) (currentData st)"
    and ed: "\<And>i. i < length c \<Longrightarrow> (edits st i \<noteq> None) = hasChanges_variant
        (case currentData st ! i of None \<Rightarrow> [] | Some b \<Rightarrow> b) (Some (c ! i))"
    and dm: "dom (edits st) \<subseteq> {..< length c}"
    by (simp_all add: variant_inv_def list_all_iff)
  show ?thesis
  proof (cases "i < length c")
    case True
    with full len obtain b where b: "currentData st ! i = Some b"
      by (auto simp: list_all_length)
    have "isCellEdited_variant st i = (\<lambda>col.
        ToString (js_or (get_field b col) (JStr [])) \<noteq> ToString (js_or (get_field (c ! i) col) (JStr [])))"
      using True len o b
      by (intro ext) (auto simp: isCellEdited_variant_def nth_opt_def array_get_def opt_field_def)
    with ed[OF True] b show ?thesis
      by (simp add: isRowEdited_def hasChanges_variant_def opt_field_def)
  next
    case False
    with dm have "edits st i = None" by (auto simp: domIff)
    moreover from False o have "\<not> list_ex (isCellEdited_variant st i) columns"
      by (simp add: list_ex_iff isCellEdited_variant_def)
    ultimately show ?thesis by (simp add: isRowEdited_def)
  qed
qed

text \<open>
  The two comparisons part on a year that is 0: for a row loaded without a year, the year
  cell given the text \<^verbatim>\<open>0\<close> is a change for the variant and none for the comparison of
  the strings.
\<close>

lemma variant_year_zero:
  "get_field (parsedRow Map.empty 0) ''PublishedYear'' = JNum 0 \<and>
   hasChanges_variant (AList.update ''PublishedYear'' (JStr ''0'') (parsedRow Map.empty 0))
     (Some (parsedRow Map.empty 0)) \<and>
   \<not> hasChanges (AList.update ''PublishedYear'' (JStr ''0'') (parsedRow Map.empty 0))
     (parsedRow Map.empty 0)"
  by code_simp

section \<open>The query pipeline\<close>

lemma elements_simps [simp]:
  "elements [] = []" "elements (Some x # xs) = x # elements xs" "elements (None # xs) = elements xs"
  by (simp_all add: elements_def List.map_filter_simps)

lemma elements_map_Some [simp]: "elements (map Some xs) = xs"
  by (induction xs) simp_all

lemma String_includes_sublist: "String_includes s t \<longleftrightarrow> sublist t s"
  by (induction s) (simp_all add: sublist_Cons_right)

lemma String_includes_Nil [simp]: "String_includes s []"
  by (simp add: String_includes_sublist)

text \<open>
  Claim C2 fails on the code. The edited-rows stage tests the position of a book in the
  array that the earlier stages left, not its index in \<^verbatim>\<open>currentData\<close>. In the example
  session the book at index 0 is edited and the one at index 1 is not; with the genre
  filter set to the genre of the second book, the genre stage leaves that book at
  position 0, and the edited-rows stage keeps it. Run first, the edited-rows stage keeps
  the first book, which the genre stage then drops: the order of the stages matters.
\<close>

theorem edited_filter_uses_position:
  "isRowEdited example_edited 0 \<and> \<not> isRowEdited example_edited 1 \<and>
   elements (currentData example_edited) = [book_Z, book_B] \<and>
   filteredData (setShowOnlyEdited (setFilterGenre example_edited ''Poetry'') True) = [book_B] \<and>
   editedFilter True (edits example_edited) (genreFilter ''Poetry'' [book_Z, book_B]) = [book_B] \<and>
   genreFilter ''Poetry'' (editedFilter True (edits example_edited) [book_Z, book_B]) = []"
proof -
  have "isRowEdited example_edited 0" "\<not> isRowEdited example_edited 1"
    by (simp_all add: isRowEdited_def example_edited_fields)
  moreover have "elements (currentData example_edited) = [book_Z, book_B]"
    by (simp add: example_edited_fields)
  moreover have
    "filteredData (setShowOnlyEdited (setFilterGenre example_edited ''Poetry'') True) = [book_B]"
    by code_simp
  moreover have
    "editedFilter True (edits example_edited) (genreFilter ''Poetry'' [book_Z, book_B]) = [book_B]"
    by code_simp
  moreover have
    "genreFilter ''Poetry'' (editedFilter True (edits example_edited) [book_Z, book_B]) = []"
    by code_simp
  ultimately show ?thesis by blast
qed

text \<open>
  Claim C6 fails on the code. The text filter searches \<^verbatim>\<open>Object.values(book)\<close>, and a book
  has the key \<^verbatim>\<open>id\<close> besides the five columns. The query \<^verbatim>\<open>2\<close> keeps the second book of the
  example, whose \<^verbatim>\<open>id\<close> is 2, although no column of it contains a 2.
\<close>

theorem text_filter_searches_id:
  "filteredData (setFilterText example_loaded ''2'') = [book_B] \<and>
   textFilter ''2'' [book_A, book_B] = [book_B] \<and>
   \<not> list_ex (\<lambda>c. String_includes (toLowerCase (ToString (get_field book_B c))) (toLowerCase ''2''))
        columns \<and>
   String_includes (toLowerCase (ToString (get_field book_B ''id''))) (toLowerCase ''2'')"
proof -
  have "filteredData (setFilterText example_loaded ''2'') = [book_B]"
    by code_simp
  moreover have "textFilter ''2'' [book_A, book_B] = [book_B]"
    by code_simp
  moreover have "\<not> list_ex (\<lambda>c. String_includes (toLowerCase (ToString (get_field book_B c)))
      (toLowerCase ''2'')) columns"
    by code_simp
  moreover have "String_includes (toLowerCase (ToString (get_field book_B ''id''))) (toLowerCase ''2'')"
    by code_simp
  ultimately show ?thesis by blast
qed

section \<open>Resetting\<close>

lemma session_original: "session c st \<Longrightarrow> originalData st = c"
  by (rule session_inv_original[OF session_inv])

lemma edits_size_empty: "edits st = Map.empty \<Longrightarrow> edits_size st = 0"
  by (simp add: edits_size_def)

text \<open>
  Claim C5, amended. In a session that loaded the collection \<open>c\<close>, resetting makes the
  current collection \<open>c\<close> again, book by book, and empties the delta set, so that the
  number of edited rows is 0; it leaves the current page number as it is.
\<close>

theorem reset_restores_loaded:
  assumes "session c st"
  shows "currentData (handleResetEdits st) = map Some c \<and>
         elements (currentData (handleResetEdits st)) = c \<and>
         originalData (handleResetEdits st) = c \<and>
         edits (handleResetEdits st) = Map.empty \<and>
         edits_size (handleResetEdits st) = 0 \<and>
         currentPage (handleResetEdits st) = currentPage st"
  using session_original[OF assms]
  by (simp add: handleResetEdits_def edits_size_def)

theorem reset_restores_loaded_witness:
  "session [book_A, book_B] example_edited \<and>
   currentData example_edited = [Some book_Z, Some book_B] \<and>
   currentData (handleResetEdits example_edited) = [Some book_A, Some book_B] \<and>
   edits_size (handleResetEdits example_edited) = 0 \<and>
   currentPage (handleResetEdits example_edited) = currentPage example_edited"
  using reset_restores_loaded[OF example_edited_session] example_edited_session
  by (simp add: example_edited_fields)

text \<open>
  The claim as stated has the reset return to page 1. A session on page 2 of thirty
  generated books stays on page 2 when it is reset.
\<close>

theorem reset_keeps_page:
  "currentPage (handleResetEdits (setCurrentPage
     (handleGenerateData initial_state (replicate 30 (''t'', ''a'', ''g'', 1900, ''i''))) 2)) = 2"
  by (simp add: handleResetEdits_def setCurrentPage_def handleGenerateData_def)


section \<open>Indices beyond the collection\<close>

lemma session_length: "session c st \<Longrightarrow> length (currentData st) = length c"
  using session_inv_length[OF session_inv] session_original by metis

lemma isCellEdited_variant_beyond:
  "length (originalData st) \<le> i \<Longrightarrow> \<not> isCellEdited_variant st i column"
  by (simp add: isCellEdited_variant_def)

lemma length_array_set_in: "i < length xs \<Longrightarrow> length (array_set xs i v) = length xs"
  by (simp add: array_set_def)

lemma length_array_set_beyond: "length xs \<le> i \<Longrightarrow> length (array_set xs i v) = Suc i"
  by (simp add: array_set_def)

lemma array_get_array_set: "array_get (array_set xs i v) i = Some v"
  by (simp add: array_set_def array_get_def nth_append)

text \<open>
  Claim C9, amended. In a session, for an index beyond the collection the modification
  queries answer false and signal nothing: \<open>isCellEdited\<close> compares \<^verbatim>\<open>undefined\<close> with
  \<^verbatim>\<open>undefined\<close>, its variant returns at its guard, and the delta set has no such index. An
  edit at an index within the collection returns and keeps the two collections at the
  same length, with either handler. What an edit beyond the collection does is left open.
\<close>

theorem queries_beyond_answer_false:
  assumes "session c st"
  shows "length (currentData st) = length (originalData st) \<and>
         (length (currentData st) \<le> i \<longrightarrow>
            \<not> isCellEdited st i column \<and> \<not> isCellEdited_variant st i column \<and>
            \<not> isRowEdited st i) \<and>
         (i < length (currentData st) \<longrightarrow>
            (\<exists>st'. handleCellEdit st i column v = Inr st' \<and>
                   length (currentData st') = length (currentData st) \<and>
                   originalData st' = originalData st) \<and>
            length (currentData (handleCellEdit_variant st i column v)) = length (currentData st) \<and>
            originalData (handleCellEdit_variant st i column v) = originalData st)"
proof (intro conjI impI)
  note I = session_inv[OF assms]
  note len = session_inv_length[OF I]
  show "length (currentData st) = length (originalData st)" by (rule len)
  {
    assume b: "length (currentData st) \<le> i"
    then have le: "length (originalData st) \<le> i" using len by simp
    show "\<not> isCellEdited st i column" by (rule isCellEdited_beyond[OF le len])
    show "\<not> isCellEdited_variant st i column" by (rule isCellEdited_variant_beyond[OF le])
    show "\<not> isRowEdited st i" using session_inv_beyond[OF I le] by (simp add: isRowEdited_def)
  }
  {
    assume r: "i < length (currentData st)"
    then have r': "i < length (originalData st)" using len by simp
    from session_inv_row[OF I r'] obtain b where b: "currentData st ! i = Some b"
      by (rule row_inv_Some)
    show "\<exists>st'. handleCellEdit st i column v = Inr st' \<and>
                   length (currentData st') = length (currentData st) \<and>
                   originalData st' = originalData st"
      using handleCellEdit_in_range[OF r' len b, of column v] by simp
    show "length (currentData (handleCellEdit_variant st i column v)) = length (currentData st)"
      using r by (simp add: handleCellEdit_variant_def Let_def length_array_set_in)
    show "originalData (handleCellEdit_variant st i column v) = originalData st"
      by (simp add: handleCellEdit_variant_def Let_def)
  }
qed

theorem queries_beyond_answer_false_witness:
  "session [book_A, book_B] example_edited \<and>
   length (currentData example_edited) = 2 \<and>
   \<not> isCellEdited example_edited 5 ''Title'' \<and>
   \<not> isCellEdited_variant example_edited 5 ''Title'' \<and>
   \<not> isRowEdited example_edited 5 \<and>
   length (currentData (handleCellEdit_variant example_edited 1 ''Title'' (JStr ''x''))) = 2"
  using queries_beyond_answer_false[OF example_edited_session, of 5 "''Title''" "JStr ''x''"]
    queries_beyond_answer_false[OF example_edited_session, of 1 "''Title''" "JStr ''x''"]
    example_edited_session
  by (simp add: example_edited_fields)

text \<open>
  The claim as stated has every such edit and query signal an out-of-range error. With
  two books loaded, the queries at index 5 answer false; the edit at index 5 throws a
  \<^verbatim>\<open>TypeError\<close> from the recomputation of the delta, and its variant returns a state whose
  current collection has grown to length 6 and whose delta set holds index 5.
\<close>

theorem beyond_range_not_signalled:
  "length (currentData example_loaded) = 2 \<and>
   isCellEdited example_loaded 5 ''Title'' = False \<and>
   isCellEdited_variant example_loaded 5 ''Title'' = False \<and>
   isRowEdited example_loaded 5 = False \<and>
   handleCellEdit example_loaded 5 ''Title'' (JStr ''x'') = Inl TypeError \<and>
   length (currentData (handleCellEdit_variant example_loaded 5 ''Title'' (JStr ''x''))) = 6 \<and>
   length (originalData (handleCellEdit_variant example_loaded 5 ''Title'' (JStr ''x''))) = 2 \<and>
   isRowEdited (handleCellEdit_variant example_loaded 5 ''Title'' (JStr ''x'')) 5"
proof -
  have "isCellEdited example_loaded 5 ''Title'' = False"
    by (simp add: isCellEdited_def nth_opt_def array_get_def opt_field_def example_loaded_fields)
  moreover have "isCellEdited_variant example_loaded 5 ''Title'' = False"
    by (simp add: isCellEdited_variant_def example_loaded_fields)
  moreover have "isRowEdited example_loaded 5 = False"
    by (simp add: isRowEdited_def example_loaded_fields)
  moreover have "handleCellEdit example_loaded 5 ''Title'' (JStr ''x'') = Inl TypeError"
    by (simp add: handleCellEdit_def nth_opt_def example_loaded_fields)
  moreover have
    "length (currentData (handleCellEdit_variant example_loaded 5 ''Title'' (JStr ''x''))) = 6"
    "length (originalData (handleCellEdit_variant example_loaded 5 ''Title'' (JStr ''x''))) = 2"
    by (simp_all add: handleCellEdit_variant_def Let_def length_array_set_beyond
        example_loaded_fields)
  moreover have
    "isRowEdited (handleCellEdit_variant example_loaded 5 ''Title'' (JStr ''x'')) 5"
    by (simp add: isRowEdited_def handleCellEdit_variant_def Let_def hasChanges_variant_def
        spread_set_def array_get_def nth_opt_def opt_field_def get_field_def js_or_def
        columns_def example_loaded_fields)
  ultimately show ?thesis by (simp add: example_loaded_fields)
qed

section \<open>What an edit stores\<close>

lemma get_field_spread_set: "get_field (spread_set row column v) column = v"
  by (simp add: spread_set_def get_field_update)

text \<open>
  Claim C10. An edit stores the value it is given, as it is, under the edited column of
  the edited row; so does the variant. A string stored under \<^verbatim>\<open>PublishedYear\<close> stays a
  string: the year filter converts it at each comparison, and the sort compares two such
  strings by code units.
\<close>

theorem edit_stores_value_as_given:
  "(handleCellEdit st i column v = Inr st' \<longrightarrow>
      opt_field (array_get (currentData st') i) column = v) \<and>
   opt_field (array_get (currentData (handleCellEdit_variant st i column v)) i) column = v \<and>
   (get_field a ''PublishedYear'' = JStr s \<longrightarrow>
      yearFilter mn mx [a] =
        (if num_le (Fin (of_int mn)) (StringToNumber s) \<and> num_le (StringToNumber s) (Fin (of_int mx))
         then [a] else [])) \<and>
   (get_field a ''PublishedYear'' = JStr s \<and> get_field b ''PublishedYear'' = JStr t \<longrightarrow>
      compareBooks ''PublishedYear'' dir a b =
        (if s < t then (if dir = Asc then - 1 else 1)
         else if t < s then (if dir = Asc then 1 else - 1) else 0))"
proof (intro conjI impI)
  assume "handleCellEdit st i column v = Inr st'"
  then have "currentData st' = array_set (currentData st) i
      (spread_set (array_get (currentData st) i) column v)"
    by (auto simp: handleCellEdit_def Let_def split: option.splits)
  then show "opt_field (array_get (currentData st') i) column = v"
    by (simp add: array_get_array_set opt_field_def get_field_spread_set)
next
  show "opt_field (array_get (currentData (handleCellEdit_variant st i column v)) i) column = v"
    by (simp add: handleCellEdit_variant_def Let_def array_get_array_set opt_field_def
        get_field_spread_set)
next
  assume "get_field a ''PublishedYear'' = JStr s"
  then show "yearFilter mn mx [a] =
        (if num_le (Fin (of_int mn)) (StringToNumber s) \<and> num_le (StringToNumber s) (Fin (of_int mx))
         then [a] else [])"
    by (simp add: yearFilter_def js_ge_def)
next
  assume "get_field a ''PublishedYear'' = JStr s \<and> get_field b ''PublishedYear'' = JStr t"
  then show "compareBooks ''PublishedYear'' dir a b =
        (if s < t then (if dir = Asc then - 1 else 1)
         else if t < s then (if dir = Asc then 1 else - 1) else 0)"
    by (simp add: compareBooks_def Let_def js_gt_def)
qed


lemma update_year_A: "AList.update ''PublishedYear'' (JStr ''999'') book_A = book_A999"
  by (simp add: book_A_def book_A999_def)

lemma update_year_B: "AList.update ''PublishedYear'' (JStr ''1990'') book_B = book_B1990"
  by (simp add: book_B_def book_B1990_def)

lemma hasChanges_A999: "hasChanges book_A999 book_A"
  by code_simp

lemma hasChanges_B1990: "hasChanges book_B1990 book_B"
  by code_simp

lemma example_year_step1:
  "handleCellEdit example_loaded 0 ''PublishedYear'' (JStr ''999'') =
     Inr (example_loaded\<lparr> currentData := [Some book_A999, Some book_B],
            edits := [0 \<mapsto> book_A999] \<rparr>)"
  using handleCellEdit_in_range[of 0 example_loaded book_A "''PublishedYear''" "JStr ''999''"]
  by (simp add: example_loaded_fields update_year_A hasChanges_A999)

lemma example_year_step2:
  "handleCellEdit (example_loaded\<lparr> currentData := [Some book_A999, Some book_B],
            edits := [0 \<mapsto> book_A999] \<rparr>) 1 ''PublishedYear'' (JStr ''1990'') = Inr example_years"
  using handleCellEdit_in_range[of 1 "example_loaded\<lparr> currentData := [Some book_A999, Some book_B],
            edits := [0 \<mapsto> book_A999] \<rparr>" book_B "''PublishedYear''" "JStr ''1990''"]
  by (simp add: example_loaded_fields update_year_B hasChanges_B1990 example_years_def)

lemma example_years_session: "session [book_A, book_B] example_years"
proof -
  have c: "''PublishedYear'' \<in> set columns" by (simp add: columns_def)
  from session.edit[OF example_loaded_session c example_year_step1]
  show ?thesis by (rule session.edit[OF _ c example_year_step2])
qed

lemma StringToNumber_999: "StringToNumber ''999'' = Fin 999"
  by (simp add: StringToNumber_def trim_def is_ws_def StrUnsignedDecimalLiteral_def
      is_radix_digit_def digit_of_def radix_val_def Let_def)

lemma StringToNumber_1990: "StringToNumber ''1990'' = Fin 1990"
  by (simp add: StringToNumber_def trim_def is_ws_def StrUnsignedDecimalLiteral_def
      is_radix_digit_def digit_of_def radix_val_def Let_def)

theorem edit_stores_value_as_given_witness:
  "handleCellEdit example_loaded 0 ''PublishedYear'' (JStr ''999'') =
     Inr (example_loaded\<lparr> currentData := [Some book_A999, Some book_B],
            edits := [0 \<mapsto> book_A999] \<rparr>) \<and>
   get_field book_A999 ''PublishedYear'' = JStr ''999'' \<and>
   get_field book_B1990 ''PublishedYear'' = JStr ''1990'' \<and>
   yearFilter 0 9999 [book_A999] = [book_A999] \<and>
   yearFilter 1000 9999 [book_A999] = [] \<and>
   compareBooks ''PublishedYear'' Asc book_B1990 book_A999 = - 1"
proof -
  have a: "get_field book_A999 ''PublishedYear'' = JStr ''999''"
    by (simp add: book_A999_def get_field_def)
  have b: "get_field book_B1990 ''PublishedYear'' = JStr ''1990''"
    by (simp add: book_B1990_def get_field_def)
  note n = StringToNumber_999
  have lt: "(''1990'' :: string) < ''999''" by simp
  from edit_stores_value_as_given[of example_loaded 0 "''PublishedYear''" "JStr ''999''" _
      book_A999 "''999''" 0 9999 book_A999 "''999''" Asc]
    edit_stores_value_as_given[of example_loaded 0 "''PublishedYear''" "JStr ''999''" _
      book_A999 "''999''" 1000 9999 book_A999 "''999''" Asc]
    edit_stores_value_as_given[of example_loaded 0 "''PublishedYear''" "JStr ''999''" _
      book_B1990 "''1990''" 0 9999 book_A999 "''999''" Asc]
    a b n lt example_year_step1
  show ?thesis by (simp add: num_le_def)
qed

section \<open>Loading\<close>

text \<open>
  Claim C8. The loaded collection has one book per parsed row, in the order of the rows:
  position \<open>i\<close> holds the book of row \<open>i\<close>, with \<^verbatim>\<open>id\<close> \<open>i + 1\<close>. A text field the row does not
  have becomes the empty string, and a text field it has is kept. The year becomes 0 when
  the row has no year or \<^verbatim>\<open>parseInt\<close> finds no integer in it, and the parsed integer
  otherwise.
\<close>

theorem load_defaults:
  assumes "i < length data"
  shows "length (parsedData data) = length data \<and>
         parsedData data ! i = parsedRow (data ! i) i \<and>
         get_field (parsedData data ! i) ''id'' = JNum (int i + 1) \<and>
         (\<forall>col \<in> {''Title'', ''Author'', ''Genre'', ''ISBN''}.
            get_field (parsedData data ! i) col =
              (case (data ! i) col of None \<Rightarrow> JStr [] | Some s \<Rightarrow> JStr s)) \<and>
         get_field (parsedData data ! i) ''PublishedYear'' =
           (case (data ! i) ''PublishedYear'' of
              None \<Rightarrow> JNum 0
            | Some s \<Rightarrow> (case parseInt_string s of None \<Rightarrow> JNum 0 | Some n \<Rightarrow> JNum n))"
proof (intro conjI ballI)
  show "length (parsedData data) = length data" by (rule length_parsedData)
  show eq: "parsedData data ! i = parsedRow (data ! i) i" by (rule parsedData_nth[OF assms])
  show "get_field (parsedData data ! i) ''id'' = JNum (int i + 1)"
    by (simp add: eq parsedRow_def get_field_def)
  show "get_field (parsedData data ! i) ''PublishedYear'' =
           (case (data ! i) ''PublishedYear'' of
              None \<Rightarrow> JNum 0
            | Some s \<Rightarrow> (case parseInt_string s of None \<Rightarrow> JNum 0 | Some n \<Rightarrow> JNum n))"
  proof -
    have u: "parseInt_string ''undefined'' = None" by code_simp
    show ?thesis
      by (simp add: eq parsedRow_def get_field_def row_field_def parseInt_def u
          split: option.splits)
  qed
next
  fix col assume "col \<in> {''Title'', ''Author'', ''Genre'', ''ISBN''}"
  then show "get_field (parsedData data ! i) col =
              (case (data ! i) col of None \<Rightarrow> JStr [] | Some s \<Rightarrow> JStr s)"
    by (auto simp: parsedData_nth[OF assms] parsedRow_def get_field_def row_field_def js_or_def
        split: option.splits)
qed

theorem load_defaults_witness:
  "(1::nat) < length [Map.empty :: csv_row, [''Title'' \<mapsto> ''T'', ''PublishedYear'' \<mapsto> ''19xx'']] \<and>
   get_field (parsedData [Map.empty, [''Title'' \<mapsto> ''T'', ''PublishedYear'' \<mapsto> ''19xx'']] ! 1) ''id''
     = JNum 2 \<and>
   get_field (parsedData [Map.empty, [''Title'' \<mapsto> ''T'', ''PublishedYear'' \<mapsto> ''19xx'']] ! 1) ''Title''
     = JStr ''T'' \<and>
   get_field (parsedData [Map.empty, [''Title'' \<mapsto> ''T'', ''PublishedYear'' \<mapsto> ''19xx'']] ! 1) ''ISBN''
     = JStr [] \<and>
   get_field (parsedData [Map.empty, [''Title'' \<mapsto> ''T'', ''PublishedYear'' \<mapsto> ''19xx'']] ! 1)
     ''PublishedYear'' = JNum 19"
proof -
  have l: "(1::nat) < length [Map.empty :: csv_row, [''Title'' \<mapsto> ''T'', ''PublishedYear'' \<mapsto> ''19xx'']]"
    by simp
  have p: "parseInt_string ''19xx'' = Some 19" by code_simp
  from load_defaults[OF l] l p show ?thesis by (elim conjE) simp
qed

section \<open>Pagination\<close>

lemma totalPages_of_le_iff:
  "0 < psize \<Longrightarrow> totalPages_of len psize \<le> z \<longleftrightarrow> int len \<le> z * int psize"
proof -
  assume p: "0 < psize"
  have "totalPages_of len psize \<le> z \<longleftrightarrow> real len / real psize \<le> of_int z"
    by (simp add: totalPages_of_def ceiling_le_iff)
  also have "\<dots> \<longleftrightarrow> real len \<le> of_int z * real psize"
    using p by (simp add: pos_divide_le_eq)
  also have "\<dots> \<longleftrightarrow> real_of_int (int len) \<le> real_of_int (z * int psize)"
    by simp
  also have "\<dots> \<longleftrightarrow> int len \<le> z * int psize"
    by (rule of_int_le_iff)
  finally show ?thesis .
qed

lemma totalPages_of_nonneg: "0 \<le> totalPages_of len psize"
proof -
  have "0 \<le> real len / real psize" by simp
  then have "- 1 < real len / real psize" by linarith
  then show ?thesis by (simp add: totalPages_of_def zero_le_ceiling)
qed

lemma totalPages_of_zero_iff: "0 < psize \<Longrightarrow> totalPages_of len psize = 0 \<longleftrightarrow> len = 0"
  using totalPages_of_le_iff[of psize len 0] totalPages_of_nonneg[of len psize] by auto

lemma totalPages_of_bounds:
  assumes "0 < psize"
  shows "int len \<le> totalPages_of len psize * int psize"
    and "totalPages_of len psize * int psize < int len + int psize"
proof -
  show "int len \<le> totalPages_of len psize * int psize"
    using totalPages_of_le_iff[OF assms, of len "totalPages_of len psize"] by simp
  have "\<not> totalPages_of len psize \<le> totalPages_of len psize - 1" by simp
  then have "\<not> int len \<le> (totalPages_of len psize - 1) * int psize"
    using totalPages_of_le_iff[OF assms, of len "totalPages_of len psize - 1"] by simp
  then show "totalPages_of len psize * int psize < int len + int psize"
    by (simp add: algebra_simps)
qed

lemma Array_slice_page:
  assumes "1 \<le> p"
  shows "Array_slice xs ((p - 1) * int psize) ((p - 1) * int psize + int psize) =
     take psize (drop (nat (p - 1) * psize) xs)"
proof -
  let ?s = "(p - 1) * int psize"
  have s: "0 \<le> ?s" using assms by simp
  have n: "nat ?s = nat (p - 1) * psize"
    using assms by (simp add: nat_mult_distrib)
  show ?thesis
  proof (cases "?s \<le> int (length xs)")
    case True
    then have "nat (min (?s + int psize) (int (length xs)) - ?s) = min psize (length xs - nat ?s)"
      using s by (auto simp: min_def)
    with True s show ?thesis
      by (simp add: Array_slice_def Let_def n min_def)
  next
    case False
    then have "length xs \<le> nat ?s" using s by linarith
    with False s show ?thesis
      by (simp add: Array_slice_def Let_def n min_def)
  qed
qed

text \<open>
  Claim C3, amended. For every view and every allowed page size, the number of pages is
  the ceiling of the length of the view over the page size, so it is 0 exactly when the
  view is empty. The page number is not clamped: setting it stores it as it is, and a
  page number from 1 on selects the slice that starts at \<open>(page - 1) * pageSize\<close>, which is
  empty exactly when the page number is beyond the number of pages.
\<close>

theorem pagination_without_clamping:
  assumes "pageSize st \<in> {10, 25, 50, 100}"
  shows "int (length (filteredData st)) \<le> totalPages st * int (pageSize st) \<and>
         totalPages st * int (pageSize st) < int (length (filteredData st)) + int (pageSize st) \<and>
         (totalPages st = 0 \<longleftrightarrow> filteredData st = []) \<and>
         currentPage (setCurrentPage st n) = n \<and>
         (1 \<le> currentPage st \<longrightarrow>
            paginatedData st =
              take (pageSize st) (drop (nat (currentPage st - 1) * pageSize st) (filteredData st)) \<and>
            (paginatedData st = [] \<longleftrightarrow> totalPages st < currentPage st))"
proof -
  from assms have p: "0 < pageSize st" by auto
  note b = totalPages_of_bounds[OF p, of "length (filteredData st)", folded totalPages_def]
  have cp: "currentPage (setCurrentPage st n) = n" by (simp add: setCurrentPage_def)
  have z: "totalPages st = 0 \<longleftrightarrow> filteredData st = []"
    using totalPages_of_zero_iff[OF p, of "length (filteredData st)"] by (simp add: totalPages_def)
  have pg: "paginatedData st =
      take (pageSize st) (drop (nat (currentPage st - 1) * pageSize st) (filteredData st)) \<and>
      (paginatedData st = [] \<longleftrightarrow> totalPages st < currentPage st)"
    if c: "1 \<le> currentPage st"
  proof
    show eq: "paginatedData st =
      take (pageSize st) (drop (nat (currentPage st - 1) * pageSize st) (filteredData st))"
      using Array_slice_page[OF c] by (simp add: paginatedData_def startIndex_def)
    have "paginatedData st = [] \<longleftrightarrow> length (filteredData st) \<le> nat (currentPage st - 1) * pageSize st"
      using p by (simp add: eq)
    also have "\<dots> \<longleftrightarrow> int (length (filteredData st)) \<le> (currentPage st - 1) * int (pageSize st)"
    proof -
      have "int (nat (currentPage st - 1) * pageSize st) = (currentPage st - 1) * int (pageSize st)"
        using c by simp
      then show ?thesis by linarith
    qed
    also have "\<dots> \<longleftrightarrow> totalPages st \<le> currentPage st - 1"
      using totalPages_of_le_iff[OF p, of "length (filteredData st)" "currentPage st - 1"]
      by (simp add: totalPages_def)
    finally show "paginatedData st = [] \<longleftrightarrow> totalPages st < currentPage st" by linarith
  qed
  from b z pg cp show ?thesis by blast
qed

lemma filteredData_example_loaded: "filteredData example_loaded = [book_A, book_B]"
  by code_simp

lemma filteredData_setCurrentPage [simp]: "filteredData (setCurrentPage st n) = filteredData st"
  by (simp add: filteredData_def setCurrentPage_def)

lemma pageSize_example_loaded: "pageSize example_loaded = 25"
  by (simp add: example_loaded_def handleFileUpload_def initial_state_def)

theorem pagination_without_clamping_witness:
  "pageSize (setCurrentPage example_loaded 2) \<in> {10, 25, 50, 100} \<and>
   length (filteredData (setCurrentPage example_loaded 2)) = 2 \<and>
   totalPages (setCurrentPage example_loaded 2) = 1 \<and>
   currentPage (setCurrentPage example_loaded 2) = 2 \<and>
   paginatedData (setCurrentPage example_loaded 2) = [] \<and>
   paginatedData (setCurrentPage example_loaded 1) = [book_A, book_B]"
proof -
  have ps: "pageSize (setCurrentPage example_loaded 2) = 25"
    "pageSize (setCurrentPage example_loaded 1) = 25"
    by (simp_all add: setCurrentPage_def pageSize_example_loaded)
  have cp: "currentPage (setCurrentPage example_loaded 2) = 2"
    "currentPage (setCurrentPage example_loaded 1) = 1"
    by (simp_all add: setCurrentPage_def)
  have m: "pageSize (setCurrentPage example_loaded 2) \<in> {10, 25, 50, 100}"
    "pageSize (setCurrentPage example_loaded 1) \<in> {10, 25, 50, 100}"
    by (simp_all add: ps)
  have t: "totalPages (setCurrentPage example_loaded 2) = 1"
    using pagination_without_clamping[OF m(1), of 2]
    by (simp add: filteredData_example_loaded ps)
  from pagination_without_clamping[OF m(1), of 2] pagination_without_clamping[OF m(2), of 1] t
  show ?thesis
    by (simp add: filteredData_example_loaded ps cp)
qed

text \<open>
  The claim as stated has 1 page for an empty view and clamps the page number. With a
  text filter that no book matches the number of pages is 0; and with 10001 books and
  25 to a page there are 401 pages, page 402 stays page 402, and its slice is empty,
  not the last book that page 401 shows.
\<close>

theorem no_clamp_counterexample:
  "filteredData (setFilterText example_loaded ''zzz'') = [] \<and>
   totalPages (setFilterText example_loaded ''zzz'') = 0 \<and>
   totalPages_of 10001 25 = 401 \<and>
   currentPage (setCurrentPage example_loaded 402) = 402 \<and>
   Array_slice (replicate 10001 book_A) ((402 - 1) * 25) ((402 - 1) * 25 + 25) = [] \<and>
   Array_slice (replicate 10001 book_A) ((401 - 1) * 25) ((401 - 1) * 25 + 25) = [book_A]"
proof -
  have f: "filteredData (setFilterText example_loaded ''zzz'') = []"
    by code_simp
  have ps: "pageSize (setFilterText example_loaded ''zzz'') = 25"
    by (simp add: setFilterText_def pageSize_example_loaded)
  have t0: "totalPages (setFilterText example_loaded ''zzz'') = 0"
    by (simp add: totalPages_def totalPages_of_def f)
  have t1: "totalPages_of 10001 25 = 401"
    by (simp add: totalPages_of_def)
  have s1: "Array_slice (replicate 10001 book_A) ((402 - 1) * 25) ((402 - 1) * 25 + 25) = []"
    by (simp add: Array_slice_def)
  have s2: "Array_slice (replicate 10001 book_A) ((401 - 1) * 25) ((401 - 1) * 25 + 25) = [book_A]"
    by (simp add: Array_slice_def)
  from f t0 t1 s1 s2 show ?thesis by (simp add: setCurrentPage_def)
qed

section \<open>Sorting\<close>

lemma mset_insort_cmp: "mset (insort_cmp cmp x ys) = add_mset x (mset ys)"
  by (induction ys) simp_all

lemma set_insort_cmp: "set (insort_cmp cmp x ys) = insert x (set ys)"
  by (induction ys) auto

lemma Array_sort_Cons: "Array_sort cmp (x # xs) = insort_cmp cmp x (Array_sort cmp xs)"
  by (simp add: Array_sort_def)

lemma Array_sort_Nil: "Array_sort cmp [] = []"
  by (simp add: Array_sort_def)

lemma mset_Array_sort: "mset (Array_sort cmp xs) = mset xs"
  by (induction xs) (simp_all add: Array_sort_Nil Array_sort_Cons mset_insort_cmp)

lemma set_Array_sort: "set (Array_sort cmp xs) = set xs"
  using mset_Array_sort[of cmp xs] by (metis set_mset_mset)

lemma filter_insort_cmp_out: "\<not> P x \<Longrightarrow> filter P (insort_cmp cmp x ys) = filter P ys"
  by (induction ys) simp_all

lemma filter_insort_cmp_in:
  assumes "P x" and "\<And>y. y \<in> set ys \<Longrightarrow> P y \<Longrightarrow> cmp x y \<le> 0"
  shows "filter P (insort_cmp cmp x ys) = x # filter P ys"
  using assms
proof (induction ys)
  case Nil
  then show ?case by simp
next
  case (Cons y ys)
  show ?case
  proof (cases "cmp x y \<le> 0")
    case True
    with Cons.prems(1) show ?thesis by simp
  next
    case False
    with Cons.prems(2)[of y] have "\<not> P y" by auto
    with False Cons show ?thesis by simp
  qed
qed

lemma filter_Array_sort:
  assumes "\<And>x y. x \<in> set xs \<Longrightarrow> y \<in> set xs \<Longrightarrow> P x \<Longrightarrow> P y \<Longrightarrow> cmp x y \<le> 0"
  shows "filter P (Array_sort cmp xs) = filter P xs"
  using assms
proof (induction xs)
  case Nil
  show ?case by (simp add: Array_sort_Nil)
next
  case (Cons x xs)
  have IH: "filter P (Array_sort cmp xs) = filter P xs"
    using Cons.prems by (intro Cons.IH) auto
  show ?case
  proof (cases "P x")
    case True
    have "filter P (insort_cmp cmp x (Array_sort cmp xs)) = x # filter P (Array_sort cmp xs)"
      using True Cons.prems by (intro filter_insort_cmp_in) (auto simp: set_Array_sort)
    with True IH show ?thesis by (simp add: Array_sort_Cons)
  next
    case False
    with IH show ?thesis by (simp add: Array_sort_Cons filter_insort_cmp_out)
  qed
qed

lemma sorted_insort_cmp:
  assumes tot: "\<And>a b. a \<in> S \<Longrightarrow> b \<in> S \<Longrightarrow> le a b \<or> le b a"
    and tr: "\<And>a b c. a \<in> S \<Longrightarrow> b \<in> S \<Longrightarrow> c \<in> S \<Longrightarrow> le a b \<Longrightarrow> le b c \<Longrightarrow> le a c"
    and le: "\<And>a b. a \<in> S \<Longrightarrow> b \<in> S \<Longrightarrow> le a b \<longleftrightarrow> cmp a b \<le> 0"
    and sub: "x \<in> S" "set ys \<subseteq> S"
    and srt: "sorted_wrt le ys"
  shows "sorted_wrt le (insort_cmp cmp x ys)"
  using sub srt
proof (induction ys)
  case Nil
  then show ?case by simp
next
  case (Cons y ys)
  from Cons.prems have y: "y \<in> S" and ys: "set ys \<subseteq> S" by auto
  show ?case
  proof (cases "cmp x y \<le> 0")
    case True
    then have xy: "le x y" using le[OF Cons.prems(1) y] by simp
    have "le x z" if "z \<in> set ys" for z
    proof -
      from that Cons.prems(3) have "le y z" by simp
      with xy show ?thesis using tr[OF Cons.prems(1) y _ xy] that ys by blast
    qed
    with True xy Cons.prems(3) show ?thesis by simp
  next
    case False
    then have "\<not> le x y" using le[OF Cons.prems(1) y] by simp
    with tot[OF Cons.prems(1) y] have yx: "le y x" by blast
    have "sorted_wrt le (insort_cmp cmp x ys)"
      using Cons.IH[OF Cons.prems(1) ys] Cons.prems(3) by simp
    with False yx Cons.prems(3) show ?thesis by (simp add: set_insort_cmp)
  qed
qed

lemma sorted_Array_sort:
  assumes tot: "\<And>a b. a \<in> set xs \<Longrightarrow> b \<in> set xs \<Longrightarrow> le a b \<or> le b a"
    and tr: "\<And>a b c. a \<in> set xs \<Longrightarrow> b \<in> set xs \<Longrightarrow> c \<in> set xs \<Longrightarrow> le a b \<Longrightarrow> le b c \<Longrightarrow> le a c"
    and le: "\<And>a b. a \<in> set xs \<Longrightarrow> b \<in> set xs \<Longrightarrow> le a b \<longleftrightarrow> cmp a b \<le> 0"
  shows "sorted_wrt le (Array_sort cmp xs)"
proof -
  have "sorted_wrt le (Array_sort cmp ys)" if "set ys \<subseteq> set xs" for ys
    using that
  proof (induction ys)
    case Nil
    show ?case by (simp add: Array_sort_Nil)
  next
    case (Cons y ys)
    then have s: "sorted_wrt le (Array_sort cmp ys)" by simp
    from Cons.prems have m: "y \<in> set xs" "set (Array_sort cmp ys) \<subseteq> set xs"
      by (auto simp: set_Array_sort)
    show ?case
      unfolding Array_sort_Cons
      by (rule sorted_insort_cmp[where S = "set xs", OF tot tr le m s])
  qed
  then show ?thesis by simp
qed

subsection \<open>The comparator of the sort stage\<close>

lemma compareBooks_same_value:
  "get_field a k = get_field b k \<Longrightarrow> compareBooks k dir a b = 0"
  by (cases "get_field b k") (simp_all add: compareBooks_def js_gt_def)

lemma js_le_numbers: "js_le (JNum m) (JNum n) \<longleftrightarrow> m \<le> n"
  by (simp add: num_le_def not_less)

lemma js_le_strings: "js_le (JStr s) (JStr t) \<longleftrightarrow> s \<le> t"
  by (simp add: not_less)

lemma compareBooks_numbers:
  assumes "get_field a k = JNum m" "get_field b k = JNum n"
  shows "compareBooks k dir a b \<le> 0 \<longleftrightarrow> (if dir = Asc then m \<le> n else n \<le> m)"
  using assms by (auto simp: compareBooks_def js_gt_def)

lemma compareBooks_strings:
  assumes "get_field a k = JStr s" "get_field b k = JStr t"
  shows "compareBooks k dir a b \<le> 0 \<longleftrightarrow> (if dir = Asc then s \<le> t else t \<le> s)"
  using assms by (auto simp: compareBooks_def js_gt_def)

lemma is_number_E: "is_number v \<Longrightarrow> (\<And>n. v = JNum n \<Longrightarrow> thesis) \<Longrightarrow> thesis"
  by (cases v) simp_all

lemma is_string_E: "is_string v \<Longrightarrow> (\<And>s. v = JStr s \<Longrightarrow> thesis) \<Longrightarrow> thesis"
  by (cases v) simp_all


lemma num_le_Fin: "num_le (Fin x) (Fin y) \<longleftrightarrow> x \<le> y"
  by (simp add: num_le_def not_less)

text \<open>
  Claim C7, amended. For every filtered sequence and every sort key under which the
  books of the sequence all hold numbers, or all hold strings, the sort stage permutes
  the sequence, keeps the books that hold the same value under the key in their order
  from before the sort, and orders by the stored values, ascending or descending as the
  direction says: numbers numerically and strings by code units, whatever the column.
  With no sort key the sequence is left as it is.
\<close>

theorem sort_stage_stable_ordered:
  assumes k: "k \<noteq> []"
    and kind: "list_all (\<lambda>b. is_number (get_field b k)) xs \<or>
               list_all (\<lambda>b. is_string (get_field b k)) xs"
  shows "mset (sortStage (Some k) dir xs) = mset xs \<and>
         filter (\<lambda>b. get_field b k = v) (sortStage (Some k) dir xs)
           = filter (\<lambda>b. get_field b k = v) xs \<and>
         sorted_wrt (\<lambda>a b. if dir = Asc then js_le (get_field a k) (get_field b k)
                           else js_le (get_field b k) (get_field a k))
           (sortStage (Some k) dir xs) \<and>
         (js_le (JNum m) (JNum n) \<longleftrightarrow> m \<le> n) \<and>
         (js_le (JStr s) (JStr t) \<longleftrightarrow> s \<le> t) \<and>
         sortStage None dir xs = xs"
proof -
  let ?cmp = "compareBooks k dir"
  let ?le = "\<lambda>a b. if dir = Asc then js_le (get_field a k) (get_field b k)
                   else js_le (get_field b k) (get_field a k)"
  have st: "sortStage (Some k) dir xs = Array_sort ?cmp xs"
    using k by (simp add: sortStage_def)
  have perm: "mset (sortStage (Some k) dir xs) = mset xs"
    by (simp add: st mset_Array_sort)
  have stable: "filter (\<lambda>b. get_field b k = v) (sortStage (Some k) dir xs)
           = filter (\<lambda>b. get_field b k = v) xs"
    unfolding st by (rule filter_Array_sort) (simp add: compareBooks_same_value)
  have ordered: "sorted_wrt ?le (Array_sort ?cmp xs)"
    using kind
  proof
    assume "list_all (\<lambda>b. is_number (get_field b k)) xs"
    then have num: "\<And>a. a \<in> set xs \<Longrightarrow> is_number (get_field a k)"
      by (simp add: list_all_iff)
    show ?thesis
    proof (rule sorted_Array_sort)
      fix a b assume "a \<in> set xs" "b \<in> set xs"
      then obtain m n where "get_field a k = JNum m" "get_field b k = JNum n"
        using num by (meson is_number_E)
      then show "?le a b \<or> ?le b a" "?le a b \<longleftrightarrow> ?cmp a b \<le> 0"
        by (auto simp: num_le_Fin compareBooks_numbers)
    next
      fix a b c assume "a \<in> set xs" "b \<in> set xs" "c \<in> set xs"
      then obtain m n p where "get_field a k = JNum m" "get_field b k = JNum n"
          "get_field c k = JNum p"
        using num by (meson is_number_E)
      then show "?le a b \<Longrightarrow> ?le b c \<Longrightarrow> ?le a c"
        by (auto simp: num_le_Fin split: if_splits)
    qed
  next
    assume "list_all (\<lambda>b. is_string (get_field b k)) xs"
    then have str: "\<And>a. a \<in> set xs \<Longrightarrow> is_string (get_field a k)"
      by (simp add: list_all_iff)
    show ?thesis
    proof (rule sorted_Array_sort)
      fix a b assume "a \<in> set xs" "b \<in> set xs"
      then obtain s t where "get_field a k = JStr s" "get_field b k = JStr t"
        using str by (meson is_string_E)
      then show "?le a b \<or> ?le b a" "?le a b \<longleftrightarrow> ?cmp a b \<le> 0"
        by (auto simp: compareBooks_strings)
    next
      fix a b c assume "a \<in> set xs" "b \<in> set xs" "c \<in> set xs"
      then obtain s t u where "get_field a k = JStr s" "get_field b k = JStr t"
          "get_field c k = JStr u"
        using str by (meson is_string_E)
      then show "?le a b \<Longrightarrow> ?le b c \<Longrightarrow> ?le a c"
        by (auto split: if_splits)
    qed
  qed
  have none: "sortStage None dir xs = xs" by (simp add: sortStage_def)
  from ordered have ordered': "sorted_wrt ?le (sortStage (Some k) dir xs)" by (simp only: st)
  from perm stable ordered' js_le_numbers[of m n] js_le_strings[of s t] none
  show ?thesis by blast
qed

theorem sort_stage_stable_ordered_witness:
  "list_all (\<lambda>b. is_number (get_field b ''PublishedYear'')) [book_A, book_B, book_Z] \<and>
   sortStage (Some ''PublishedYear'') Desc [book_A, book_B, book_Z] = [book_A, book_Z, book_B] \<and>
   sortStage (Some ''PublishedYear'') Asc [book_A, book_B, book_Z] = [book_B, book_A, book_Z] \<and>
   filter (\<lambda>b. get_field b ''PublishedYear'' = JNum 1990)
     (sortStage (Some ''PublishedYear'') Desc [book_A, book_B, book_Z]) = [book_A, book_Z] \<and>
   mset (sortStage (Some ''PublishedYear'') Desc [book_A, book_B, book_Z])
     = mset [book_A, book_B, book_Z]"
proof -
  have n: "list_all (\<lambda>b. is_number (get_field b ''PublishedYear'')) [book_A, book_B, book_Z]"
    by (simp add: book_A_def book_B_def book_Z_def get_field_def)
  have y: "get_field book_A ''PublishedYear'' = JNum 1990"
    "get_field book_B ''PublishedYear'' = JNum 1985"
    "get_field book_Z ''PublishedYear'' = JNum 1990"
    by (simp_all add: book_A_def book_B_def book_Z_def get_field_def)
  have d: "sortStage (Some ''PublishedYear'') Desc [book_A, book_B, book_Z] = [book_A, book_Z, book_B]"
    by (simp add: sortStage_def Array_sort_def compareBooks_def js_gt_def y)
  have a: "sortStage (Some ''PublishedYear'') Asc [book_A, book_B, book_Z] = [book_B, book_A, book_Z]"
    by (simp add: sortStage_def Array_sort_def compareBooks_def js_gt_def y)
  have k: "''PublishedYear'' \<noteq> []" by simp
  from sort_stage_stable_ordered[OF k disjI1[OF n], of Desc "JNum 1990"] n d a
  show ?thesis by (simp add: y)
qed

text \<open>
  The claim as stated has the years compared numerically in every filtered sequence.
  After the year cells of the two example books were given the texts \<^verbatim>\<open>999\<close> and \<^verbatim>\<open>1990\<close>,
  the ascending sort by \<^verbatim>\<open>PublishedYear\<close> puts 1990 before 999.
\<close>

theorem string_years_sorted_by_code_units:
  "session [book_A, book_B] example_years \<and>
   elements (currentData example_years) = [book_A999, book_B1990] \<and>
   filteredData (handleSort example_years ''PublishedYear'') = [book_B1990, book_A999] \<and>
   sortStage (Some ''PublishedYear'') Asc [book_A999, book_B1990] = [book_B1990, book_A999] \<and>
   num_lt (ToNumber (get_field book_A999 ''PublishedYear''))
          (ToNumber (get_field book_B1990 ''PublishedYear''))"
proof -
  have y: "get_field book_A999 ''PublishedYear'' = JStr ''999''"
    "get_field book_B1990 ''PublishedYear'' = JStr ''1990''"
    by (simp_all add: book_A999_def book_B1990_def get_field_def)
  have s: "sortStage (Some ''PublishedYear'') Asc [book_A999, book_B1990] = [book_B1990, book_A999]"
    by (simp add: sortStage_def Array_sort_def compareBooks_def js_gt_def y)
  note n = StringToNumber_999 StringToNumber_1990
  have yf: "yearFilter 0 9999 [book_A999, book_B1990] = [book_A999, book_B1990]"
    by (simp add: yearFilter_def js_ge_def y n num_le_def)
  have cfg: "filterText example_years = []" "filterGenre example_years = []"
    "yearRange_min example_years = 0" "yearRange_max example_years = 9999"
    "showOnlyEdited example_years = False" "sortConfig_key example_years = None"
    by (simp_all add: example_years_def example_loaded_def handleFileUpload_def initial_state_def)
  have e: "elements (currentData example_years) = [book_A999, book_B1990]"
    by (simp add: example_years_def)
  have f: "filteredData (handleSort example_years ''PublishedYear'') = [book_B1990, book_A999]"
    by (simp add: filteredData_def handleSort_def cfg e textFilter_def genreFilter_def
        editedFilter_def yf s)
  from example_years_session e f s show ?thesis by (simp add: y n)
qed

section \<open>Export and import\<close>

subsection \<open>An integer printed and parsed again\<close>











subsection \<open>Scanning what \<^verbatim>\<open>booksToCSV\<close> writes\<close>











subsection \<open>From the scanned rows to the books\<close>








subsection \<open>The round trip\<close>











end
